theory Spec2Isabelle
  imports
    Main
    "HOL-Library.Char_ord"
    "HOL-Library.List_Lexorder"
    "HOL-Library.Product_Lexorder"
    "HOL-Library.Multiset"
begin

section \<open>The relational store\<close>

subsection \<open>Rows and tables\<close>

text \<open>
  The three tables the SQL of \<^verbatim>\<open>lib/pg-persistence.js\<close> names, each a list of rows in
  the store's physical order. Columns carry the table's initial as a prefix, since
  \<^verbatim>\<open>username\<close>, \<^verbatim>\<open>id\<close> and \<^verbatim>\<open>title\<close> occur in more than one table. Identifiers
  are integers (the route handlers pass \<^verbatim>\<open>+req.params.todoListId\<close>).
\<close>

record users_row =
  u_username :: string
  u_password :: string

record todolists_row =
  tl_id :: int
  tl_title :: string
  tl_username :: string

record todos_row =
  t_id :: int
  t_title :: string
  t_done :: bool
  t_todolist_id :: int
  t_username :: string

text \<open>
  A todo list as the service hands it out: the row of \<^verbatim>\<open>todolists\<close> with the property
  \<^verbatim>\<open>todos\<close> that \<^verbatim>\<open>sortedTodoLists\<close> and \<^verbatim>\<open>loadTodoList\<close> add to it.
\<close>

record todoList = todolists_row +
  tl_todos :: "todos_row list"

record db =
  users :: "users_row list"
  todolists :: "todolists_row list"
  todos :: "todos_row list"
  todolists_id_seq :: int
  todos_id_seq :: int

subsection \<open>Errors\<close>

text \<open>
  A JavaScript error object: its \<^verbatim>\<open>name\<close> and its \<^verbatim>\<open>message\<close>. \<open>String_of\<close> is
  \<^verbatim>\<open>String(error)\<close>, that is \<^verbatim>\<open>Error.prototype.toString\<close>.
\<close>

datatype error = Error (name: string) (message: string)

fun String_of :: "error \<Rightarrow> string" where
  "String_of (Error n m) =
     (if n = [] then m else if m = [] then n else n @ '': '' @ m)"

subsection \<open>Statements and results\<close>

text \<open>
  What \<^verbatim>\<open>client.query\<close> resolves to: the rows and the row count. For a \<^verbatim>\<open>SELECT\<close>
  the count is the number of rows returned; for \<^verbatim>\<open>INSERT\<close> and \<^verbatim>\<open>UPDATE\<close> it is
  the number of rows the statement inserted or matched, and \<^verbatim>\<open>rows\<close> is empty.
\<close>

record 'r result =
  rows :: "'r list"
  rowCount :: nat

datatype param = PText string | PInt int

text \<open>
  A parameterised statement with its positional parameters bound: the SQL text and
  the parameter values (what \<^verbatim>\<open>logQuery\<close> prints), and what the store does with it, a
  function from the tables to an error or a result and the new tables. A statement the
  store rejects leaves the tables as they were.
\<close>

record 'r statement =
  sql :: string
  parameters :: "param list"
  exec :: "db \<Rightarrow> error + ('r result \<times> db)"

definition select_result :: "'r list \<Rightarrow> db \<Rightarrow> error + ('r result \<times> db)" where
  "select_result rs d = Inr (\<lparr>rows = rs, rowCount = length rs\<rparr>, d)"

definition command_result :: "nat \<Rightarrow> db \<Rightarrow> error + (unit result \<times> db)" where
  "command_result n d = Inr (\<lparr>rows = [], rowCount = n\<rparr>, d)"

subsection \<open>The schema\<close>

text \<open>
  The repository's SQL schema file is not among the sources. The spec gives the tables
  as \<^verbatim>\<open>users(username PK, password TEXT)\<close>,
  \<^verbatim>\<open>todolists(id PK, title TEXT, username FK)\<close> and
  \<^verbatim>\<open>todos(id PK, title TEXT, done BOOLEAN, todolist_id FK, username FK)\<close>, with a
  uniqueness constraint on \<^verbatim>\<open>(username, title)\<close> of \<^verbatim>\<open>todolists\<close>, "enforced by
  the store, surfaced to the service as a classifiable error".
\<close>

text \<open>
  Modelled from the spec: the error of a violated uniqueness constraint \<open>c\<close> (the
  schema and the store are not among the sources), with PostgreSQL's message for it.
\<close>

definition unique_violation :: "string \<Rightarrow> error" where
  "unique_violation c =
     Error ''error''
       (''duplicate key value violates unique constraint '' @ [CHR 0x22] @ c @ [CHR 0x22])"

text \<open>
  Modelled from the spec: the error of a violated foreign key \<open>c\<close> of table \<open>t\<close>
  (the schema and the store are not among the sources).
\<close>

definition foreign_key_violation :: "string \<Rightarrow> string \<Rightarrow> error" where
  "foreign_key_violation t c =
     Error ''error''
       (''insert or update on table '' @ [CHR 0x22] @ t @ [CHR 0x22] @
        '' violates foreign key constraint '' @ [CHR 0x22] @ c @ [CHR 0x22])"

text \<open>
  Modelled from the spec: what the schema makes of an \<^verbatim>\<open>INSERT\<close> into
  \<^verbatim>\<open>todolists\<close> that gives a title and a user name (the schema is not among the
  sources). The \<^verbatim>\<open>id\<close> comes from the table's sequence, and the primary key, the
  uniqueness of \<^verbatim>\<open>(username, title)\<close> and the foreign key on \<^verbatim>\<open>username\<close> are
  checked.
\<close>

definition insert_todolist :: "string \<Rightarrow> string \<Rightarrow> db \<Rightarrow> error + (unit result \<times> db)" where
  "insert_todolist title' user d =
     (let row = \<lparr>tl_id = todolists_id_seq d, tl_title = title', tl_username = user\<rparr> in
      if list_ex (\<lambda>r. tl_id r = tl_id row) (todolists d)
        then Inl (unique_violation ''todolists_pkey'')
      else if list_ex (\<lambda>r. tl_username r = user \<and> tl_title r = title') (todolists d)
        then Inl (unique_violation ''todolists_username_title_key'')
      else if \<not> list_ex (\<lambda>r. u_username r = user) (users d)
        then Inl (foreign_key_violation ''todolists'' ''todolists_username_fkey'')
      else command_result 1
             (d\<lparr>todolists := todolists d @ [row],
                todolists_id_seq := todolists_id_seq d + 1\<rparr>))"

text \<open>
  Modelled from the spec: what the schema makes of an \<^verbatim>\<open>INSERT\<close> into \<^verbatim>\<open>todos\<close>
  that gives a title, a list and a user name (the schema is not among the sources).
  The \<^verbatim>\<open>id\<close> comes from the table's sequence, \<^verbatim>\<open>done\<close> is false, and the primary
  key and the two foreign keys are checked. The foreign key on \<^verbatim>\<open>todolist_id\<close> asks
  for a list with that \<^verbatim>\<open>id\<close>, whoever owns it.
\<close>

definition insert_todo :: "string \<Rightarrow> int \<Rightarrow> string \<Rightarrow> db \<Rightarrow> error + (unit result \<times> db)" where
  "insert_todo title' todolist_id user d =
     (let row = \<lparr>t_id = todos_id_seq d, t_title = title', t_done = False,
                 t_todolist_id = todolist_id, t_username = user\<rparr> in
      if list_ex (\<lambda>r. t_id r = t_id row) (todos d)
        then Inl (unique_violation ''todos_pkey'')
      else if \<not> list_ex (\<lambda>r. tl_id r = todolist_id) (todolists d)
        then Inl (foreign_key_violation ''todos'' ''todos_todolist_id_fkey'')
      else if \<not> list_ex (\<lambda>r. u_username r = user) (users d)
        then Inl (foreign_key_violation ''todos'' ''todos_username_fkey'')
      else command_result 1
             (d\<lparr>todos := todos d @ [row], todos_id_seq := todos_id_seq d + 1\<rparr>))"







subsection \<open>Case-insensitive titles\<close>

text \<open>
  SQL's \<^verbatim>\<open>lower\<close>, on ASCII letters. Strings compare lexicographically by character
  code, the order of \<^theory_text>\<open>List_Lexorder\<close> over \<^theory_text>\<open>Char_ord\<close>; this is the
  order of \<^verbatim>\<open>ORDER BY\<close> under the collation \<^verbatim>\<open>C\<close>, and \<open>False\<close> comes before
  \<open>True\<close>.
\<close>

definition lower_char :: "char \<Rightarrow> char" where
  "lower_char c =
     (if CHR ''A'' \<le> c \<and> c \<le> CHR ''Z'' then char_of (of_char c + (32::nat)) else c)"

definition lower :: "string \<Rightarrow> string" where
  "lower s = map lower_char s"

section \<open>The query executor (\<^verbatim>\<open>lib/db-query.js\<close>)\<close>

text \<open>
  The world outside the service: the tables, the number of clients that are connected
  and not yet ended, the error with which the server refuses a new connection (if it
  does), and the lines \<^verbatim>\<open>logQuery\<close> has written (without their timestamps).
\<close>

record pg =
  tables :: db
  clients :: nat
  refuses :: "error option"
  console :: "(string \<times> param list) list"

definition client_connect :: "pg \<Rightarrow> (error + unit) \<times> pg" where
  "client_connect w =
     (case refuses w of
        Some e \<Rightarrow> (Inl e, w)
      | None \<Rightarrow> (Inr (), w\<lparr>clients := clients w + 1\<rparr>))"

definition logQuery :: "string \<Rightarrow> param list \<Rightarrow> pg \<Rightarrow> pg" where
  "logQuery stmt ps w = w\<lparr>console := console w @ [(stmt, ps)]\<rparr>"

definition client_query :: "'r statement \<Rightarrow> pg \<Rightarrow> (error + 'r result) \<times> pg" where
  "client_query stmt w =
     (case exec stmt (tables w) of
        Inl e \<Rightarrow> (Inl e, w)
      | Inr (res, d) \<Rightarrow> (Inr res, w\<lparr>tables := d\<rparr>))"

definition client_end :: "pg \<Rightarrow> pg" where
  "client_end w = w\<lparr>clients := clients w - 1\<rparr>"

text \<open>
  \<^verbatim>\<open>dbQuery\<close>: a new client, \<^verbatim>\<open>connect\<close>, \<^verbatim>\<open>logQuery\<close>, \<^verbatim>\<open>query\<close>, \<^verbatim>\<open>end\<close>, in
  this order and with no \<^verbatim>\<open>try\<close> around them: a rejected \<^verbatim>\<open>await\<close> leaves the
  function at once, with the error it was rejected with.
\<close>

definition dbQuery :: "'r statement \<Rightarrow> pg \<Rightarrow> (error + 'r result) \<times> pg" where
  "dbQuery stmt w =
     (case client_connect w of
        (Inl e, w1) \<Rightarrow> (Inl e, w1)
      | (Inr _, w1) \<Rightarrow>
          (let w2 = logQuery (sql stmt) (parameters stmt) w1 in
           case client_query stmt w2 of
             (Inl e, w3) \<Rightarrow> (Inl e, w3)
           | (Inr res, w3) \<Rightarrow> (Inr res, client_end w3)))"

section \<open>The persistence service (\<^verbatim>\<open>lib/pg-persistence.js\<close>)\<close>

subsection \<open>The SQL statements\<close>

text \<open>
  Each constant of the source, with its \<^verbatim>\<open>$1\<close>, \<^verbatim>\<open>$2\<close>, ... as arguments. A
  \<^verbatim>\<open>SELECT\<close> without \<^verbatim>\<open>ORDER BY\<close> returns the rows in the table's order.
  \<open>TOGGLE_DONE\<close>, of which a claim speaks at ids that no row carries, has the store's
  check of its two ids against the range of \<^verbatim>\<open>integer\<close>, \<^verbatim>\<open>$1\<close> first; the other
  statements are written for ids within that range.
\<close>

record password_row =
  password :: string

definition FIND_PASSWORD :: "string \<Rightarrow> password_row statement" where
  "FIND_PASSWORD p1 =
     \<lparr>sql = ''SELECT password FROM users WHERE username = $1'',
      parameters = [PText p1],
      exec = (\<lambda>d. select_result
                (map (\<lambda>r. \<lparr>password = u_password r\<rparr>)
                   (filter (\<lambda>r. u_username r = p1) (users d))) d)\<rparr>"

definition ALL_TODOLISTS :: "string \<Rightarrow> todolists_row statement" where
  "ALL_TODOLISTS p1 =
     \<lparr>sql = ''SELECT * FROM todolists WHERE username = $1 ORDER BY lower(title) ASC'',
      parameters = [PText p1],
      exec = (\<lambda>d. select_result
                (sort_key (\<lambda>r. lower (tl_title r))
                   (filter (\<lambda>r. tl_username r = p1) (todolists d))) d)\<rparr>"

definition ALL_TODOS :: "string \<Rightarrow> todos_row statement" where
  "ALL_TODOS p1 =
     \<lparr>sql = ''SELECT * FROM todos WHERE username = $1'',
      parameters = [PText p1],
      exec = (\<lambda>d. select_result (filter (\<lambda>t. t_username t = p1) (todos d)) d)\<rparr>"

definition SORTED_TODOS :: "int \<Rightarrow> string \<Rightarrow> todos_row statement" where
  "SORTED_TODOS p1 p2 =
     \<lparr>sql = ''SELECT * FROM todos WHERE todolist_id = $1 AND username = $2 '' @
            ''ORDER BY done ASC, lower(title) ASC'',
      parameters = [PInt p1, PText p2],
      exec = (\<lambda>d. select_result
                (sort_key (\<lambda>t. (t_done t, lower (t_title t)))
                   (filter (\<lambda>t. t_todolist_id t = p1 \<and> t_username t = p2) (todos d))) d)\<rparr>"

definition FIND_TODOLIST :: "int \<Rightarrow> string \<Rightarrow> todolists_row statement" where
  "FIND_TODOLIST p1 p2 =
     \<lparr>sql = ''SELECT * FROM todolists WHERE id = $1 AND username = $2'',
      parameters = [PInt p1, PText p2],
      exec = (\<lambda>d. select_result
                (filter (\<lambda>r. tl_id r = p1 \<and> tl_username r = p2) (todolists d)) d)\<rparr>"

definition FIND_TODOS :: "int \<Rightarrow> string \<Rightarrow> todos_row statement" where
  "FIND_TODOS p1 p2 =
     \<lparr>sql = ''SELECT * FROM todos WHERE todolist_id = $1 AND username = $2'',
      parameters = [PInt p1, PText p2],
      exec = (\<lambda>d. select_result
                (filter (\<lambda>t. t_todolist_id t = p1 \<and> t_username t = p2) (todos d)) d)\<rparr>"


definition FIND_TODO :: "int \<Rightarrow> int \<Rightarrow> string \<Rightarrow> todos_row statement" where
  "FIND_TODO p1 p2 p3 =
     \<lparr>sql = ''SELECT * FROM todos WHERE todolist_id = $1 AND id = $2 AND username = $3'',
      parameters = [PInt p1, PInt p2, PText p3],
      exec = (\<lambda>d. select_result
                (filter (\<lambda>t. t_todolist_id t = p1 \<and> t_id t = p2 \<and> t_username t = p3)
                   (todos d)) d)\<rparr>"


definition ADD_TITLE :: "string \<Rightarrow> int \<Rightarrow> string \<Rightarrow> unit statement" where
  "ADD_TITLE p1 p2 p3 =
     \<lparr>sql = ''INSERT INTO todos (title, todolist_id, username) VALUES ($1, $2, $3)'',
      parameters = [PText p1, PInt p2, PText p3],
      exec = insert_todo p1 p2 p3\<rparr>"

definition CREATE_TODOLIST :: "string \<Rightarrow> string \<Rightarrow> unit statement" where
  "CREATE_TODOLIST p1 p2 =
     \<lparr>sql = ''INSERT INTO todolists (title, username) VALUES ($1, $2)'',
      parameters = [PText p1, PText p2],
      exec = insert_todolist p1 p2\<rparr>"

subsection \<open>The methods\<close>

text \<open>The object the constructor builds: the session's user name.\<close>

record PgPersistence =
  username :: string

text \<open>
  \<^verbatim>\<open>await Promise.all([p, q])\<close> of two calls already made: the pair of the results,
  or the error when one of the two was rejected (that of \<open>p\<close> when both were).
\<close>

definition Promise_all :: "error + 'a \<Rightarrow> error + 'b \<Rightarrow> error + ('a \<times> 'b)" where
  "Promise_all p q =
     (case p of
        Inl e \<Rightarrow> Inl e
      | Inr a \<Rightarrow> (case q of Inl e \<Rightarrow> Inl e | Inr b \<Rightarrow> Inr (a, b)))"

text \<open>
  \<^verbatim>\<open>bcrypt.compare\<close> is the library's: \<open>authenticated\<close> takes it as the parameter
  \<open>bcrypt_compare\<close>, from the password and the stored hash, both strings, to the
  verdict. \<^verbatim>\<open>rows[0]\<close> of an empty array is \<^verbatim>\<open>undefined\<close>, and reading its
  \<^verbatim>\<open>password\<close> raises a \<^verbatim>\<open>TypeError\<close>.
\<close>

definition authenticated ::
  "(string \<Rightarrow> string \<Rightarrow> bool) \<Rightarrow> PgPersistence \<Rightarrow> string \<Rightarrow> string \<Rightarrow> pg
     \<Rightarrow> (error + bool) \<times> pg" where
  "authenticated bcrypt_compare this user pass w =
     (case dbQuery (FIND_PASSWORD user) w of
        (Inl e, w') \<Rightarrow> (Inl e, w')
      | (Inr res, w') \<Rightarrow>
          if rowCount res = 0 then (Inr False, w')
          else (case rows res of
                  [] \<Rightarrow> (Inl (Error ''TypeError'' ''Cannot read properties of undefined''), w')
                | r # _ \<Rightarrow> (Inr (bcrypt_compare pass (password r)), w')))"

definition isDoneTodoList :: "todoList \<Rightarrow> bool" where
  "isDoneTodoList todoList =
     (length (tl_todos todoList) > 0 \<and> list_all t_done (tl_todos todoList))"

definition hasUndoneTodos :: "todoList \<Rightarrow> bool" where
  "hasUndoneTodos todoList = list_ex (\<lambda>todo. \<not> t_done todo) (tl_todos todoList)"

text \<open>The row of \<^verbatim>\<open>todolists\<close> with the property \<^verbatim>\<open>todos\<close> set.\<close>

definition set_todos :: "todolists_row \<Rightarrow> todos_row list \<Rightarrow> todoList" where
  "set_todos r ts =
     \<lparr>tl_id = tl_id r, tl_title = tl_title r, tl_username = tl_username r, tl_todos = ts\<rparr>"

text \<open>
  \<^verbatim>\<open>_partitionTodoLists\<close>: the \<^verbatim>\<open>forEach\<close> pushes each list on \<^verbatim>\<open>done\<close> or on
  \<^verbatim>\<open>undone\<close>, and the result is \<^verbatim>\<open>undone.concat(done)\<close>.
\<close>

fun partition_forEach ::
  "todoList list \<Rightarrow> todoList list \<Rightarrow> todoList list \<Rightarrow> todoList list \<times> todoList list" where
  "partition_forEach [] done undone = (done, undone)"
| "partition_forEach (todoList # rest) done undone =
     (if isDoneTodoList todoList
      then partition_forEach rest (done @ [todoList]) undone
      else partition_forEach rest done (undone @ [todoList]))"

definition partitionTodoLists :: "todoList list \<Rightarrow> todoList list" where
  "partitionTodoLists todoLists =
     (case partition_forEach todoLists [] [] of (done, undone) \<Rightarrow> undone @ done)"

text \<open>
  JavaScript's truthiness of an array: every array is truthy, the empty one as well.
\<close>

definition truthy_array :: "'a list \<Rightarrow> bool" where
  "truthy_array xs = True"

text \<open>
  \<^verbatim>\<open>sortedTodoLists\<close>. Both calls of \<^verbatim>\<open>dbQuery\<close> are made before the
  \<^verbatim>\<open>await\<close>, so the second runs whatever becomes of the first. \<open>None\<close> is the
  source's \<^verbatim>\<open>undefined\<close>.
\<close>

definition sortedTodoLists ::
  "PgPersistence \<Rightarrow> pg \<Rightarrow> (error + todoList list option) \<times> pg" where
  "sortedTodoLists this w =
     (case dbQuery (ALL_TODOLISTS (username this)) w of
        (resultTodoLists, w1) \<Rightarrow>
     (case dbQuery (ALL_TODOS (username this)) w1 of
        (resultTodos, w2) \<Rightarrow>
     (case Promise_all resultTodoLists resultTodos of
        Inl e \<Rightarrow> (Inl e, w2)
      | Inr (r0, r1) \<Rightarrow>
          (let allTodoLists = rows r0;
               allTodos = rows r1
           in if \<not> truthy_array allTodoLists \<or> \<not> truthy_array allTodos
              then (Inr None, w2)
              else
                (let attached =
                   map (\<lambda>todoList.
                          set_todos todoList
                            (filter (\<lambda>todo. tl_id todoList = t_todolist_id todo) allTodos))
                     allTodoLists
                 in (Inr (Some (partitionTodoLists attached)), w2))))))"

definition sortedTodos :: "PgPersistence \<Rightarrow> todoList \<Rightarrow> pg \<Rightarrow> (error + todos_row list) \<times> pg" where
  "sortedTodos this todoList w =
     (case dbQuery (SORTED_TODOS (tl_id todoList) (username this)) w of
        (Inl e, w') \<Rightarrow> (Inl e, w')
      | (Inr res, w') \<Rightarrow> (Inr (rows res), w'))"

text \<open>\<^verbatim>\<open>loadTodoList\<close>: \<open>None\<close> is the source's \<^verbatim>\<open>undefined\<close>.\<close>

definition loadTodoList :: "PgPersistence \<Rightarrow> int \<Rightarrow> pg \<Rightarrow> (error + todoList option) \<times> pg" where
  "loadTodoList this todoListId w =
     (case dbQuery (FIND_TODOLIST todoListId (username this)) w of
        (resultTodoList, w1) \<Rightarrow>
     (case dbQuery (FIND_TODOS todoListId (username this)) w1 of
        (resultTodos, w2) \<Rightarrow>
     (case Promise_all resultTodoList resultTodos of
        Inl e \<Rightarrow> (Inl e, w2)
      | Inr (r0, r1) \<Rightarrow>
          (case rows r0 of
             [] \<Rightarrow> (Inr None, w2)
           | todoList # _ \<Rightarrow> (Inr (Some (set_todos todoList (rows r1))), w2)))))"


definition loadTodo ::
  "PgPersistence \<Rightarrow> int \<Rightarrow> int \<Rightarrow> pg \<Rightarrow> (error + todos_row option) \<times> pg" where
  "loadTodo this todoListId todoId w =
     (case dbQuery (FIND_TODO todoListId todoId (username this)) w of
        (Inl e, w') \<Rightarrow> (Inl e, w')
      | (Inr res, w') \<Rightarrow>
          (case rows res of [] \<Rightarrow> (Inr None, w') | r # _ \<Rightarrow> (Inr (Some r), w')))"


definition addTodo :: "PgPersistence \<Rightarrow> string \<Rightarrow> int \<Rightarrow> pg \<Rightarrow> (error + bool) \<times> pg" where
  "addTodo this todoTitle todoListId w =
     (case dbQuery (ADD_TITLE todoTitle todoListId (username this)) w of
        (Inl e, w') \<Rightarrow> (Inl e, w')
      | (Inr res, w') \<Rightarrow> (Inr (rowCount res > 0), w'))"

text \<open>
  The regular expression of \<^verbatim>\<open>isUniqueConstraintViolation\<close> has no metacharacter:
  \<^verbatim>\<open>test\<close> looks for the pattern as a substring.
\<close>

fun regex_test :: "string \<Rightarrow> string \<Rightarrow> bool" where
  "regex_test p [] = (p = [])"
| "regex_test p (c # cs) = (take (length p) (c # cs) = p \<or> regex_test p cs)"

definition isUniqueConstraintViolation :: "error \<Rightarrow> bool" where
  "isUniqueConstraintViolation e =
     regex_test ''duplicate key value violates unique constraint'' (String_of e)"

definition createTodoList :: "PgPersistence \<Rightarrow> string \<Rightarrow> pg \<Rightarrow> (error + bool) \<times> pg" where
  "createTodoList this title' w =
     (case dbQuery (CREATE_TODOLIST title' (username this)) w of
        (Inr results, w') \<Rightarrow> (Inr (rowCount results > 0), w')
      | (Inl e, w') \<Rightarrow>
          if isUniqueConstraintViolation e then (Inr False, w') else (Inl e, w'))"

section \<open>An example store\<close>

text \<open>
  Two users. Alice owns the lists 1, 3 and 4, Bob owns list 2; list 1 is done, list 3
  is not, list 4 has no todos.
\<close>

definition example_db :: db where
  "example_db =
     \<lparr>users = [\<lparr>u_username = ''alice'', u_password = ''hash-a''\<rparr>,
               \<lparr>u_username = ''bob'', u_password = ''hash-b''\<rparr>],
      todolists = [\<lparr>tl_id = 1, tl_title = ''Work'', tl_username = ''alice''\<rparr>,
                   \<lparr>tl_id = 2, tl_title = ''Secret'', tl_username = ''bob''\<rparr>,
                   \<lparr>tl_id = 3, tl_title = ''home'', tl_username = ''alice''\<rparr>,
                   \<lparr>tl_id = 4, tl_title = ''Empty'', tl_username = ''alice''\<rparr>],
      todos = [\<lparr>t_id = 1, t_title = ''write'', t_done = True,
                 t_todolist_id = 1, t_username = ''alice''\<rparr>,
               \<lparr>t_id = 2, t_title = ''Plan'', t_done = False,
                 t_todolist_id = 3, t_username = ''alice''\<rparr>,
               \<lparr>t_id = 3, t_title = ''hide'', t_done = False,
                 t_todolist_id = 2, t_username = ''bob''\<rparr>,
               \<lparr>t_id = 4, t_title = ''Clean'', t_done = True,
                 t_todolist_id = 3, t_username = ''alice''\<rparr>,
               \<lparr>t_id = 5, t_title = ''bake'', t_done = False,
                 t_todolist_id = 3, t_username = ''alice''\<rparr>],
      todolists_id_seq = 5,
      todos_id_seq = 6\<rparr>"

definition example_pg :: pg where
  "example_pg = \<lparr>tables = example_db, clients = 0, refuses = None, console = []\<rparr>"

definition alice :: PgPersistence where
  "alice = \<lparr>username = ''alice''\<rparr>"

definition bob :: PgPersistence where
  "bob = \<lparr>username = ''bob''\<rparr>"

section \<open>Lemmas on the model\<close>

lemma example_pg_accepts: "refuses example_pg = None"
  by (simp add: example_pg_def)

subsection \<open>The three outcomes of \<open>dbQuery\<close>\<close>

lemma dbQuery_refused: "refuses w = Some e \<Longrightarrow> dbQuery stmt w = (Inl e, w)"
  by (simp add: dbQuery_def client_connect_def)

lemma dbQuery_rejected:
  "refuses w = None \<Longrightarrow> exec stmt (tables w) = Inl e \<Longrightarrow>
   dbQuery stmt w =
     (Inl e, w\<lparr>clients := clients w + 1,
               console := console w @ [(sql stmt, parameters stmt)]\<rparr>)"
  by (simp add: dbQuery_def client_connect_def logQuery_def client_query_def)

lemma dbQuery_resolved:
  "refuses w = None \<Longrightarrow> exec stmt (tables w) = Inr (res, d) \<Longrightarrow>
   dbQuery stmt w =
     (Inr res, w\<lparr>tables := d,
                 console := console w @ [(sql stmt, parameters stmt)]\<rparr>)"
  by (simp add: dbQuery_def client_connect_def logQuery_def client_query_def client_end_def)

text \<open>A result comes from the statement run on the tables; an error leaves them alone.\<close>

lemma dbQuery_Inr:
  "dbQuery stmt w = (Inr res, w') \<Longrightarrow>
   \<exists>d. exec stmt (tables w) = Inr (res, d) \<and> tables w' = d \<and>
       refuses w' = refuses w \<and> refuses w = None"
  by (auto simp: dbQuery_def client_connect_def logQuery_def client_query_def
      client_end_def Let_def split: option.splits sum.splits prod.splits)

lemma dbQuery_Inl:
  "dbQuery stmt w = (Inl e, w') \<Longrightarrow> tables w' = tables w \<and> refuses w' = refuses w"
  by (auto simp: dbQuery_def client_connect_def logQuery_def client_query_def
      client_end_def Let_def split: option.splits sum.splits prod.splits)

text \<open>A \<^verbatim>\<open>SELECT\<close> fails only when the connection is refused.\<close>

lemma dbQuery_select:
  "exec stmt = (\<lambda>d. select_result (q d) d) \<Longrightarrow> dbQuery stmt w = (r, w') \<Longrightarrow>
   tables w' = tables w \<and> refuses w' = refuses w \<and>
   (case r of
      Inl e \<Rightarrow> refuses w = Some e
    | Inr res \<Rightarrow> refuses w = None \<and>
        res = \<lparr>rows = q (tables w), rowCount = length (q (tables w))\<rparr>)"
  by (auto simp: dbQuery_def client_connect_def logQuery_def client_query_def
      client_end_def Let_def select_result_def
      split: option.splits sum.splits prod.splits)

subsection \<open>The partition\<close>

lemma partition_forEach_eq:
  "partition_forEach xs d u =
     (d @ filter isDoneTodoList xs, u @ filter (\<lambda>l. \<not> isDoneTodoList l) xs)"
  by (induction xs arbitrary: d u) simp_all

lemma partitionTodoLists_eq:
  "partitionTodoLists xs = filter (\<lambda>l. \<not> isDoneTodoList l) xs @ filter isDoneTodoList xs"
  by (simp add: partitionTodoLists_def partition_forEach_eq)

subsection \<open>The pattern match\<close>

lemma regex_test_iff: "regex_test p s \<longleftrightarrow> (\<exists>a b. s = a @ p @ b)"
proof (induction s)
  case Nil
  then show ?case by auto
next
  case (Cons c cs)
  have "take (length p) (c # cs) = p \<longleftrightarrow> (\<exists>b. c # cs = p @ b)"
    by (metis append_eq_conv_conj append_take_drop_id)
  moreover have "(\<exists>a b. c # cs = a @ p @ b) \<longleftrightarrow>
      (\<exists>b. c # cs = p @ b) \<or> (\<exists>a b. cs = a @ p @ b)"
  proof
    assume "\<exists>a b. c # cs = a @ p @ b"
    then obtain a b where ab: "c # cs = a @ p @ b" by blast
    show "(\<exists>b. c # cs = p @ b) \<or> (\<exists>a b. cs = a @ p @ b)"
    proof (cases a)
      case Nil
      with ab show ?thesis by auto
    next
      case (Cons x a')
      with ab have "cs = a' @ p @ b" by simp
      then show ?thesis by blast
    qed
  next
    assume "(\<exists>b. c # cs = p @ b) \<or> (\<exists>a b. cs = a @ p @ b)"
    then show "\<exists>a b. c # cs = a @ p @ b"
    proof
      assume "\<exists>b. c # cs = p @ b"
      then show ?thesis by (metis append_Nil)
    next
      assume "\<exists>a b. cs = a @ p @ b"
      then obtain a b where "cs = a @ p @ b" by blast
      then have "c # cs = (c # a) @ p @ b" by simp
      then show ?thesis by blast
    qed
  qed
  ultimately show ?case using Cons.IH by simp
qed

lemma unique_violation_classified: "isUniqueConstraintViolation (unique_violation c)"
proof -
  have "String_of (unique_violation c) =
      ''error: '' @ ''duplicate key value violates unique constraint'' @
      ('' '' @ [CHR 0x22] @ c @ [CHR 0x22])"
    by (simp add: unique_violation_def)
  then show ?thesis
    unfolding isUniqueConstraintViolation_def regex_test_iff by blast
qed

subsection \<open>Updates of \<^verbatim>\<open>todos\<close>\<close>










subsection \<open>The inserts\<close>

lemma insert_todo_Inr:
  "insert_todo title' l u d = Inr (res, d') \<Longrightarrow>
   rowCount res = 1 \<and>
   d' = d\<lparr>todos := todos d @ [\<lparr>t_id = todos_id_seq d, t_title = title', t_done = False,
                                  t_todolist_id = l, t_username = u\<rparr>],
           todos_id_seq := todos_id_seq d + 1\<rparr>"
  by (auto simp: insert_todo_def Let_def command_result_def split: if_splits)

lemma insert_todo_accepted:
  "\<not> list_ex (\<lambda>r. t_id r = todos_id_seq d) (todos d) \<Longrightarrow>
   list_ex (\<lambda>r. tl_id r = l) (todolists d) \<Longrightarrow>
   list_ex (\<lambda>r. u_username r = u) (users d) \<Longrightarrow>
   insert_todo title' l u d =
     Inr (\<lparr>rows = [], rowCount = 1\<rparr>,
          d\<lparr>todos := todos d @ [\<lparr>t_id = todos_id_seq d, t_title = title', t_done = False,
                                  t_todolist_id = l, t_username = u\<rparr>],
            todos_id_seq := todos_id_seq d + 1\<rparr>)"
  by (simp add: insert_todo_def Let_def command_result_def)

lemma insert_todolist_Inr:
  "insert_todolist title' u d = Inr (res, d') \<Longrightarrow>
   rowCount res = 1 \<and>
   d' = d\<lparr>todolists := todolists d @
             [\<lparr>tl_id = todolists_id_seq d, tl_title = title', tl_username = u\<rparr>],
           todolists_id_seq := todolists_id_seq d + 1\<rparr>"
  by (auto simp: insert_todolist_def Let_def command_result_def split: if_splits)

lemma insert_todolist_duplicate:
  "list_ex (\<lambda>r. tl_username r = u \<and> tl_title r = title') (todolists d) \<Longrightarrow>
   \<exists>c. insert_todolist title' u d = Inl (unique_violation c)"
  by (auto simp: insert_todolist_def Let_def)

lemma insert_todolist_pkey:
  "list_ex (\<lambda>r. tl_id r = todolists_id_seq d) (todolists d) \<Longrightarrow>
   insert_todolist title' u d = Inl (unique_violation ''todolists_pkey'')"
  by (simp add: insert_todolist_def Let_def)

lemma insert_todolist_fkey:
  "\<not> list_ex (\<lambda>r. tl_id r = todolists_id_seq d) (todolists d) \<Longrightarrow>
   \<not> list_ex (\<lambda>r. tl_username r = u \<and> tl_title r = title') (todolists d) \<Longrightarrow>
   \<not> list_ex (\<lambda>r. u_username r = u) (users d) \<Longrightarrow>
   insert_todolist title' u d =
     Inl (foreign_key_violation ''todolists'' ''todolists_username_fkey'')"
  by (simp add: insert_todolist_def Let_def)

lemma insert_todolist_accepted:
  "\<not> list_ex (\<lambda>r. tl_id r = todolists_id_seq d) (todolists d) \<Longrightarrow>
   \<not> list_ex (\<lambda>r. tl_username r = u \<and> tl_title r = title') (todolists d) \<Longrightarrow>
   list_ex (\<lambda>r. u_username r = u) (users d) \<Longrightarrow>
   insert_todolist title' u d =
     Inr (\<lparr>rows = [], rowCount = 1\<rparr>,
          d\<lparr>todolists := todolists d @
                [\<lparr>tl_id = todolists_id_seq d, tl_title = title', tl_username = u\<rparr>],
            todolists_id_seq := todolists_id_seq d + 1\<rparr>)"
  by (simp add: insert_todolist_def Let_def command_result_def)

lemma isUniqueConstraintViolation_iff:
  "isUniqueConstraintViolation e \<longleftrightarrow>
   (\<exists>a b. String_of e = a @ ''duplicate key value violates unique constraint'' @ b)"
  by (simp only: isUniqueConstraintViolation_def regex_test_iff)

lemma username_fkey_not_classified:
  "\<not> isUniqueConstraintViolation
      (foreign_key_violation ''todolists'' ''todolists_username_fkey'')"
  by (simp add: isUniqueConstraintViolation_def foreign_key_violation_def)

text \<open>What \<open>createTodoList\<close> makes of each outcome of its query.\<close>

lemma createTodoList_rejected:
  assumes "dbQuery (CREATE_TODOLIST title' (username this)) w = (Inl e, w')"
  shows "fst (createTodoList this title' w) =
      (if \<exists>a b. String_of e = a @ ''duplicate key value violates unique constraint'' @ b
       then Inr False else Inl e)"
    and "tables (snd (createTodoList this title' w)) = tables w"
proof -
  from dbQuery_Inl [OF assms] have t: "tables w' = tables w" by simp
  show "fst (createTodoList this title' w) =
      (if \<exists>a b. String_of e = a @ ''duplicate key value violates unique constraint'' @ b
       then Inr False else Inl e)"
    unfolding isUniqueConstraintViolation_iff [symmetric]
    by (simp add: createTodoList_def assms)
  show "tables (snd (createTodoList this title' w)) = tables w"
    by (simp add: createTodoList_def assms t)
qed

text \<open>The definitions a run of \<open>dbQuery\<close> on a concrete store unfolds.\<close>

lemmas run_defs = dbQuery_def client_connect_def logQuery_def client_query_def
  client_end_def command_result_def select_result_def

subsection \<open>The statements that read\<close>

lemma FIND_PASSWORD_exec:
  "exec (FIND_PASSWORD user) =
     (\<lambda>d. select_result
        (map (\<lambda>r. \<lparr>password = u_password r\<rparr>) (filter (\<lambda>r. u_username r = user) (users d))) d)"
  by (simp add: FIND_PASSWORD_def)

lemma SORTED_TODOS_exec:
  "exec (SORTED_TODOS l u) =
     (\<lambda>d. select_result
        (sort_key (\<lambda>t. (t_done t, lower (t_title t)))
           (filter (\<lambda>t. t_todolist_id t = l \<and> t_username t = u) (todos d))) d)"
  by (simp add: SORTED_TODOS_def)

lemma ALL_TODOLISTS_exec:
  "exec (ALL_TODOLISTS u) =
     (\<lambda>d. select_result
        (sort_key (\<lambda>r. lower (tl_title r)) (filter (\<lambda>r. tl_username r = u) (todolists d))) d)"
  by (simp add: ALL_TODOLISTS_def)

lemma ALL_TODOS_exec:
  "exec (ALL_TODOS u) = (\<lambda>d. select_result (filter (\<lambda>t. t_username t = u) (todos d)) d)"
  by (simp add: ALL_TODOS_def)

lemma FIND_TODOLIST_exec:
  "exec (FIND_TODOLIST l u) =
     (\<lambda>d. select_result (filter (\<lambda>r. tl_id r = l \<and> tl_username r = u) (todolists d)) d)"
  by (simp add: FIND_TODOLIST_def)

lemma FIND_TODOS_exec:
  "exec (FIND_TODOS l u) =
     (\<lambda>d. select_result (filter (\<lambda>t. t_todolist_id t = l \<and> t_username t = u) (todos d)) d)"
  by (simp add: FIND_TODOS_def)

lemma FIND_TODO_exec:
  "exec (FIND_TODO l i u) =
     (\<lambda>d. select_result
        (filter (\<lambda>t. t_todolist_id t = l \<and> t_id t = i \<and> t_username t = u) (todos d)) d)"
  by (simp add: FIND_TODO_def)

text \<open>A \<^verbatim>\<open>SELECT\<close> on a reachable store, in one equation.\<close>

lemma dbQuery_select_ok:
  assumes "exec stmt = (\<lambda>d. select_result (q d) d)" and "refuses w = None"
  shows "dbQuery stmt w =
     (Inr \<lparr>rows = q (tables w), rowCount = length (q (tables w))\<rparr>,
      w\<lparr>console := console w @ [(sql stmt, parameters stmt)]\<rparr>)"
proof -
  have "exec stmt (tables w) =
      Inr (\<lparr>rows = q (tables w), rowCount = length (q (tables w))\<rparr>, tables w)"
    by (simp add: assms(1) select_result_def)
  from dbQuery_resolved [OF assms(2) this] show ?thesis by simp
qed

text \<open>The reads on a store that refuses the connection.\<close>

lemma sortedTodoLists_refused:
  "refuses w = Some e \<Longrightarrow> fst (sortedTodoLists this w) = Inl e"
  by (simp add: sortedTodoLists_def Promise_all_def dbQuery_refused split: prod.splits)

lemma loadTodoList_refused:
  "refuses w = Some e \<Longrightarrow> fst (loadTodoList this todoListId w) = Inl e"
  by (simp add: loadTodoList_def Promise_all_def dbQuery_refused split: prod.splits)

lemma loadTodo_refused:
  "refuses w = Some e \<Longrightarrow> fst (loadTodo this todoListId todoId w) = Inl e"
  by (simp add: loadTodo_def dbQuery_refused)

lemma sortedTodos_refused:
  "refuses w = Some e \<Longrightarrow> fst (sortedTodos this todoList w) = Inl e"
  by (simp add: sortedTodos_def dbQuery_refused)

text \<open>The reads on a reachable store.\<close>

lemma sortedTodos_run:
  assumes "refuses w = None"
  shows "fst (sortedTodos this todoList w) =
     Inr (sort_key (\<lambda>t. (t_done t, lower (t_title t)))
            (filter (\<lambda>t. t_todolist_id t = tl_id todoList \<and> t_username t = username this)
               (todos (tables w))))"
proof -
  obtain r w' where q: "dbQuery (SORTED_TODOS (tl_id todoList) (username this)) w = (r, w')"
    by (cases "dbQuery (SORTED_TODOS (tl_id todoList) (username this)) w")
  from dbQuery_select [OF SORTED_TODOS_exec q] assms show ?thesis
    by (cases r) (auto simp: sortedTodos_def q)
qed

lemma sortedTodoLists_run:
  assumes "refuses w = None"
  shows "fst (sortedTodoLists this w) =
     Inr (Some (partitionTodoLists
            (map (\<lambda>r. set_todos r
                    (filter (\<lambda>t. tl_id r = t_todolist_id t)
                       (filter (\<lambda>t. t_username t = username this) (todos (tables w)))))
               (sort_key (\<lambda>r. lower (tl_title r))
                  (filter (\<lambda>r. tl_username r = username this) (todolists (tables w)))))))"
proof -
  let ?w1 = "w\<lparr>console := console w @
      [(sql (ALL_TODOLISTS (username this)), parameters (ALL_TODOLISTS (username this)))]\<rparr>"
  have r1: "refuses ?w1 = None" using assms by simp
  show ?thesis
    by (simp add: sortedTodoLists_def Promise_all_def truthy_array_def
        dbQuery_select_ok [OF ALL_TODOLISTS_exec assms]
        dbQuery_select_ok [OF ALL_TODOS_exec r1])
qed

lemma sortedTodoLists_Inr:
  assumes "fst (sortedTodoLists this w) = Inr x"
  shows "refuses w = None"
proof (cases "refuses w")
  case None
  then show ?thesis .
next
  case (Some e)
  from sortedTodoLists_refused [OF this, of this] assms show ?thesis by simp
qed

lemma loadTodoList_run:
  assumes "refuses w = None"
  shows "fst (loadTodoList this todoListId w) =
     Inr (case filter (\<lambda>r. tl_id r = todoListId \<and> tl_username r = username this)
                 (todolists (tables w)) of
            [] \<Rightarrow> None
          | r # _ \<Rightarrow>
              Some (set_todos r
                (filter (\<lambda>t. t_todolist_id t = todoListId \<and> t_username t = username this)
                   (todos (tables w)))))"
proof -
  let ?s = "FIND_TODOLIST todoListId (username this)"
  let ?w1 = "w\<lparr>console := console w @ [(sql ?s, parameters ?s)]\<rparr>"
  have r1: "refuses ?w1 = None" using assms by simp
  show ?thesis
    by (simp add: loadTodoList_def Promise_all_def
        dbQuery_select_ok [OF FIND_TODOLIST_exec assms]
        dbQuery_select_ok [OF FIND_TODOS_exec r1] split: list.splits)
qed

lemma loadTodoList_Inr:
  assumes "fst (loadTodoList this todoListId w) = Inr x"
  shows "refuses w = None"
proof (cases "refuses w")
  case None
  then show ?thesis .
next
  case (Some e)
  from loadTodoList_refused [OF this, of this todoListId] assms show ?thesis by simp
qed

lemma loadTodo_run:
  assumes "refuses w = None"
  shows "fst (loadTodo this todoListId todoId w) =
     Inr (case filter (\<lambda>t. t_todolist_id t = todoListId \<and> t_id t = todoId \<and>
                            t_username t = username this) (todos (tables w)) of
            [] \<Rightarrow> None
          | r # _ \<Rightarrow> Some r)"
  unfolding loadTodo_def dbQuery_select_ok [OF FIND_TODO_exec assms]
  by (simp split: list.splits)

lemma loadTodo_Inr:
  assumes "fst (loadTodo this todoListId todoId w) = Inr x"
  shows "refuses w = None"
proof (cases "refuses w")
  case None
  then show ?thesis .
next
  case (Some e)
  from loadTodo_refused [OF this, of this todoListId todoId] assms show ?thesis by simp
qed

lemma sortedTodos_Inr:
  assumes "fst (sortedTodos this todoList w) = Inr x"
  shows "refuses w = None"
proof (cases "refuses w")
  case None
  then show ?thesis .
next
  case (Some e)
  from sortedTodos_refused [OF this, of this todoList] assms show ?thesis by simp
qed

subsection \<open>What a read depends on\<close>

lemma filter_conj_own: "filter (\<lambda>x. A x \<and> U x) xs = filter A (filter U xs)"
  by (induction xs) auto

lemma filter_conj_own3:
  "filter (\<lambda>x. A x \<and> B x \<and> U x) xs = filter (\<lambda>x. A x \<and> B x) (filter U xs)"
  by (induction xs) auto

text \<open>
  The reads of an identity see the store only through its own rows: two stores that
  agree on them, and on whether they accept a connection, give the same results.
\<close>

lemma reads_frame:
  assumes r: "refuses w' = refuses w"
    and l: "filter (\<lambda>r. tl_username r = username this) (todolists (tables w')) =
            filter (\<lambda>r. tl_username r = username this) (todolists (tables w))"
    and t: "filter (\<lambda>t. t_username t = username this) (todos (tables w')) =
            filter (\<lambda>t. t_username t = username this) (todos (tables w))"
  shows "fst (sortedTodoLists this w') = fst (sortedTodoLists this w)"
    and "fst (loadTodoList this todoListId w') = fst (loadTodoList this todoListId w)"
    and "fst (loadTodo this todoListId todoId w') = fst (loadTodo this todoListId todoId w)"
    and "fst (sortedTodos this todoList w') = fst (sortedTodos this todoList w)"
proof -
  let ?u = "username this"
  have l2: "filter (\<lambda>r. tl_id r = todoListId \<and> tl_username r = ?u) (todolists (tables w')) =
      filter (\<lambda>r. tl_id r = todoListId \<and> tl_username r = ?u) (todolists (tables w))"
    unfolding filter_conj_own [of "\<lambda>r. tl_id r = todoListId"] l by (rule refl)
  have t2: "\<And>i. filter (\<lambda>t. t_todolist_id t = i \<and> t_username t = ?u) (todos (tables w')) =
      filter (\<lambda>t. t_todolist_id t = i \<and> t_username t = ?u) (todos (tables w))"
    unfolding filter_conj_own [of "\<lambda>t. t_todolist_id t = i" for i] t by (rule refl)
  have t3: "filter (\<lambda>t. t_todolist_id t = todoListId \<and> t_id t = todoId \<and>
        t_username t = ?u) (todos (tables w')) =
      filter (\<lambda>t. t_todolist_id t = todoListId \<and> t_id t = todoId \<and> t_username t = ?u)
        (todos (tables w))"
    unfolding filter_conj_own3 [of "\<lambda>t. t_todolist_id t = todoListId" "\<lambda>t. t_id t = todoId"] t
    by (rule refl)
  show "fst (sortedTodoLists this w') = fst (sortedTodoLists this w)"
  proof (cases "refuses w")
    case None
    with r have "refuses w' = None" by simp
    from sortedTodoLists_run [OF this] sortedTodoLists_run [OF None] show ?thesis
      by (simp only: l t)
  next
    case (Some e)
    with r have "refuses w' = Some e" by simp
    from sortedTodoLists_refused [OF this] sortedTodoLists_refused [OF Some] show ?thesis
      by simp
  qed
  show "fst (loadTodoList this todoListId w') = fst (loadTodoList this todoListId w)"
  proof (cases "refuses w")
    case None
    with r have "refuses w' = None" by simp
    from loadTodoList_run [OF this] loadTodoList_run [OF None] show ?thesis
      by (simp only: l2 t2)
  next
    case (Some e)
    with r have "refuses w' = Some e" by simp
    from loadTodoList_refused [OF this] loadTodoList_refused [OF Some] show ?thesis
      by simp
  qed
  show "fst (loadTodo this todoListId todoId w') = fst (loadTodo this todoListId todoId w)"
  proof (cases "refuses w")
    case None
    with r have "refuses w' = None" by simp
    from loadTodo_run [OF this] loadTodo_run [OF None] show ?thesis
      by (simp only: t3)
  next
    case (Some e)
    with r have "refuses w' = Some e" by simp
    from loadTodo_refused [OF this] loadTodo_refused [OF Some] show ?thesis
      by simp
  qed
  show "fst (sortedTodos this todoList w') = fst (sortedTodos this todoList w)"
  proof (cases "refuses w")
    case None
    with r have "refuses w' = None" by simp
    from sortedTodos_run [OF this] sortedTodos_run [OF None] show ?thesis
      by (simp only: t2)
  next
    case (Some e)
    with r have "refuses w' = Some e" by simp
    from sortedTodos_refused [OF this] sortedTodos_refused [OF Some] show ?thesis
      by simp
  qed
qed

text \<open>What the two creating methods leave of the store.\<close>

lemma createTodoList_frame:
  assumes "createTodoList that title' w = (b, w')"
  shows "refuses w' = refuses w \<and> todos (tables w') = todos (tables w) \<and>
    (todolists (tables w') = todolists (tables w) \<or>
     (\<exists>r. tl_username r = username that \<and>
          todolists (tables w') = todolists (tables w) @ [r]))"
proof -
  let ?stmt = "CREATE_TODOLIST title' (username that)"
  have ex: "exec ?stmt = insert_todolist title' (username that)"
    by (simp add: CREATE_TODOLIST_def)
  obtain q w1 where q: "dbQuery ?stmt w = (q, w1)"
    by (cases "dbQuery ?stmt w")
  with assms have w1: "w' = w1"
    by (cases q) (auto simp: createTodoList_def split: if_splits)
  show ?thesis
  proof (cases q)
    case (Inl e)
    with q dbQuery_Inl [of ?stmt w e w1] show ?thesis unfolding w1 by simp
  next
    case (Inr res)
    with q dbQuery_Inr [of ?stmt w res w1] ex
    have "insert_todolist title' (username that) (tables w) = Inr (res, tables w1)"
      and "refuses w1 = refuses w"
      by auto
    with insert_todolist_Inr [of title' "username that" "tables w" res "tables w1"]
    show ?thesis unfolding w1 by simp
  qed
qed

lemma addTodo_frame:
  assumes "addTodo that todoTitle l w = (b, w')"
  shows "refuses w' = refuses w \<and> todolists (tables w') = todolists (tables w) \<and>
    (todos (tables w') = todos (tables w) \<or>
     (\<exists>r. t_username r = username that \<and> todos (tables w') = todos (tables w) @ [r]))"
proof -
  let ?stmt = "ADD_TITLE todoTitle l (username that)"
  have ex: "exec ?stmt = insert_todo todoTitle l (username that)"
    by (simp add: ADD_TITLE_def)
  obtain q w1 where q: "dbQuery ?stmt w = (q, w1)"
    by (cases "dbQuery ?stmt w")
  with assms have w1: "w' = w1"
    by (cases q) (auto simp: addTodo_def)
  show ?thesis
  proof (cases q)
    case (Inl e)
    with q dbQuery_Inl [of ?stmt w e w1] show ?thesis unfolding w1 by simp
  next
    case (Inr res)
    with q dbQuery_Inr [of ?stmt w res w1] ex
    have "insert_todo todoTitle l (username that) (tables w) = Inr (res, tables w1)"
      and "refuses w1 = refuses w"
      by auto
    with insert_todo_Inr [of todoTitle l "username that" "tables w" res "tables w1"]
    show ?thesis unfolding w1 by simp
  qed
qed

text \<open>Rows that another user creates do not change the rows of the identity.\<close>

lemma created_by_other:
  assumes "username that \<noteq> username this"
    and "createTodoList that title' w = (b, w') \<or> addTodo that title' l w = (b, w')"
  shows "refuses w' = refuses w
    \<and> filter (\<lambda>r. tl_username r = username this) (todolists (tables w')) =
       filter (\<lambda>r. tl_username r = username this) (todolists (tables w))
    \<and> filter (\<lambda>t. t_username t = username this) (todos (tables w')) =
       filter (\<lambda>t. t_username t = username this) (todos (tables w))"
  using assms(2)
proof
  assume "createTodoList that title' w = (b, w')"
  from createTodoList_frame [OF this] assms(1) show ?thesis by auto
next
  assume "addTodo that title' l w = (b, w')"
  from addTodo_frame [OF this] assms(1) show ?thesis by auto
qed

subsection \<open>Sorting and partitioning\<close>

text \<open>Sorted by a pair of keys: the first key never decreases.\<close>

lemma sorted_pair_fst:
  assumes "sorted (map (\<lambda>x. (f x, g x)) xs)" and "i < j" and "j < length xs"
  shows "f (xs ! i) \<le> f (xs ! j)"
proof -
  from assms have "map (\<lambda>x. (f x, g x)) xs ! i \<le> map (\<lambda>x. (f x, g x)) xs ! j"
    by (intro sorted_nth_mono) simp_all
  with assms show ?thesis
    by (auto simp: less_eq_prod_def)
qed

text \<open>Where the first key is constant, the second key is sorted.\<close>

lemma sorted_pair_snd:
  assumes "sorted (map (\<lambda>x. (f x, g x)) xs)" and "\<And>x. x \<in> set xs \<Longrightarrow> f x = c"
  shows "sorted (map g xs)"
proof -
  from assms(1) have "sorted_wrt (\<lambda>x y. (f x, g x) \<le> (f y, g y)) xs"
    by (simp add: sorted_map)
  then have "sorted_wrt (\<lambda>x y. g x \<le> g y) xs"
  proof (rule sorted_wrt_mono_rel [rotated])
    fix x y
    assume "x \<in> set xs" "y \<in> set xs" "(f x, g x) \<le> (f y, g y)"
    with assms(2) show "g x \<le> g y"
      by (auto simp: less_eq_prod_def)
  qed
  then show ?thesis by (simp add: sorted_map)
qed

lemma set_partitionTodoLists: "set (partitionTodoLists xs) = set xs"
  by (auto simp: partitionTodoLists_eq)

lemma truncate_set_todos: "todolists_row.truncate (set_todos r ts) = r"
  by (simp add: set_todos_def todolists_row.truncate_def)

lemma set_todos_sel:
  "tl_id (set_todos r ts) = tl_id r" "tl_title (set_todos r ts) = tl_title r"
  "tl_username (set_todos r ts) = tl_username r" "tl_todos (set_todos r ts) = ts"
  by (simp_all add: set_todos_def)

text \<open>In a stable partition no member of the second group comes before one of the first.\<close>

lemma partition_order:
  assumes "i < j" and "j < length xs" and "P ((filter (\<lambda>x. \<not> P x) xs @ filter P xs) ! i)"
  shows "P ((filter (\<lambda>x. \<not> P x) xs @ filter P xs) ! j)"
proof -
  let ?A = "filter (\<lambda>x. \<not> P x) xs" and ?B = "filter P xs"
  have len: "length ?A + length ?B = length xs"
    by (induction xs) auto
  have iA: "\<not> i < length ?A"
  proof
    assume a: "i < length ?A"
    then have "(?A @ ?B) ! i = ?A ! i" by (simp add: nth_append)
    with nth_mem [OF a] have "(?A @ ?B) ! i \<in> set ?A" by simp
    with assms(3) show False by simp
  qed
  with assms(1) have "\<not> j < length ?A" by simp
  moreover from this assms(2) len have "j - length ?A < length ?B" by simp
  ultimately have "(?A @ ?B) ! j = ?B ! (j - length ?A)" and "j - length ?A < length ?B"
    by (simp_all add: nth_append)
  with nth_mem [of "j - length ?A" ?B] have "(?A @ ?B) ! j \<in> set ?B" by simp
  then show ?thesis by simp
qed

lemma mset_map_partition:
  "mset (map f (filter (\<lambda>x. \<not> P x) xs @ filter P xs)) = mset (map f xs)"
  by (induction xs) auto

lemma length_partition:
  "length (filter (\<lambda>x. \<not> P x) xs @ filter P xs) = length xs"
  by (induction xs) auto

lemma filter_partition:
  "filter P (filter (\<lambda>x. \<not> P x) xs @ filter P xs) = filter P xs"
  "filter (\<lambda>x. \<not> P x) (filter (\<lambda>x. \<not> P x) xs @ filter P xs) = filter (\<lambda>x. \<not> P x) xs"
  by (induction xs) auto

section \<open>Properties\<close>

text \<open>
  C1. Whatever the store holds, every list and every todo that \<open>sortedTodoLists\<close>,
  \<open>loadTodoList\<close>, \<open>loadTodo\<close> or \<open>sortedTodos\<close> returns is a row of the store that
  carries the user name of the identity the service was built with, the todos attached to
  a returned list included. And what these four return to the identity is the same before
  and after a service built with another user name has run \<open>createTodoList\<close> or
  \<open>addTodo\<close>: the rows created under another identity are never returned.
\<close>

theorem reads_only_own_rows:
  "(\<forall>ls. fst (sortedTodoLists this w) = Inr (Some ls) \<longrightarrow>
      (\<forall>l \<in> set ls.
          tl_username l = username this \<and>
          todolists_row.truncate l \<in> set (todolists (tables w)) \<and>
          (\<forall>t \<in> set (tl_todos l).
              t_username t = username this \<and> t \<in> set (todos (tables w)))))
   \<and> (\<forall>l. fst (loadTodoList this todoListId w) = Inr (Some l) \<longrightarrow>
        tl_username l = username this \<and>
        todolists_row.truncate l \<in> set (todolists (tables w)) \<and>
        (\<forall>t \<in> set (tl_todos l).
            t_username t = username this \<and> t \<in> set (todos (tables w))))
   \<and> (\<forall>t. fst (loadTodo this todoListId todoId w) = Inr (Some t) \<longrightarrow>
        t_username t = username this \<and> t \<in> set (todos (tables w)))
   \<and> (\<forall>ts. fst (sortedTodos this todoList w) = Inr ts \<longrightarrow>
        (\<forall>t \<in> set ts. t_username t = username this \<and> t \<in> set (todos (tables w))))
   \<and> (\<forall>that title' l b w'.
        username that \<noteq> username this \<and>
        (createTodoList that title' w = (b, w') \<or> addTodo that title' l w = (b, w')) \<longrightarrow>
        fst (sortedTodoLists this w') = fst (sortedTodoLists this w) \<and>
        fst (loadTodoList this todoListId w') = fst (loadTodoList this todoListId w) \<and>
        fst (loadTodo this todoListId todoId w') = fst (loadTodo this todoListId todoId w) \<and>
        fst (sortedTodos this todoList w') = fst (sortedTodos this todoList w))"
proof -
  have all: "\<forall>ls. fst (sortedTodoLists this w) = Inr (Some ls) \<longrightarrow>
      (\<forall>l \<in> set ls.
          tl_username l = username this \<and>
          todolists_row.truncate l \<in> set (todolists (tables w)) \<and>
          (\<forall>t \<in> set (tl_todos l).
              t_username t = username this \<and> t \<in> set (todos (tables w))))"
  proof (intro allI impI ballI)
    fix ls l
    assume r: "fst (sortedTodoLists this w) = Inr (Some ls)" and l: "l \<in> set ls"
    from r sortedTodoLists_run [OF sortedTodoLists_Inr [OF r], of this] l
    obtain row where row: "row \<in> set (todolists (tables w))" "tl_username row = username this"
      and leq: "l = set_todos row
          (filter (\<lambda>t. tl_id row = t_todolist_id t)
             (filter (\<lambda>t. t_username t = username this) (todos (tables w))))"
      by (auto simp: set_partitionTodoLists)
    show "tl_username l = username this \<and>
          todolists_row.truncate l \<in> set (todolists (tables w)) \<and>
          (\<forall>t \<in> set (tl_todos l).
              t_username t = username this \<and> t \<in> set (todos (tables w)))"
      unfolding leq using row by (simp add: truncate_set_todos set_todos_sel)
  qed
  have one: "\<forall>l. fst (loadTodoList this todoListId w) = Inr (Some l) \<longrightarrow>
        tl_username l = username this \<and>
        todolists_row.truncate l \<in> set (todolists (tables w)) \<and>
        (\<forall>t \<in> set (tl_todos l).
            t_username t = username this \<and> t \<in> set (todos (tables w)))"
  proof (intro allI impI)
    fix l
    assume r: "fst (loadTodoList this todoListId w) = Inr (Some l)"
    let ?rs = "filter (\<lambda>r. tl_id r = todoListId \<and> tl_username r = username this)
        (todolists (tables w))"
    from r loadTodoList_run [OF loadTodoList_Inr [OF r], of this todoListId]
    obtain row rest where rs: "?rs = row # rest"
      and leq: "l = set_todos row
          (filter (\<lambda>t. t_todolist_id t = todoListId \<and> t_username t = username this)
             (todos (tables w)))"
      by (auto split: list.splits)
    have "row \<in> set ?rs" unfolding rs by simp
    then have row: "row \<in> set (todolists (tables w))" "tl_username row = username this"
      by simp_all
    show "tl_username l = username this \<and>
        todolists_row.truncate l \<in> set (todolists (tables w)) \<and>
        (\<forall>t \<in> set (tl_todos l).
            t_username t = username this \<and> t \<in> set (todos (tables w)))"
      unfolding leq using row by (simp add: truncate_set_todos set_todos_sel)
  qed
  have todo: "\<forall>t. fst (loadTodo this todoListId todoId w) = Inr (Some t) \<longrightarrow>
        t_username t = username this \<and> t \<in> set (todos (tables w))"
  proof (intro allI impI)
    fix t
    assume r: "fst (loadTodo this todoListId todoId w) = Inr (Some t)"
    let ?rs = "filter (\<lambda>t. t_todolist_id t = todoListId \<and> t_id t = todoId \<and>
        t_username t = username this) (todos (tables w))"
    from r loadTodo_run [OF loadTodo_Inr [OF r], of this todoListId todoId]
    obtain rest where rs: "?rs = t # rest"
      by (auto split: list.splits)
    have "t \<in> set ?rs" unfolding rs by simp
    then show "t_username t = username this \<and> t \<in> set (todos (tables w))"
      by simp
  qed
  have srt: "\<forall>ts. fst (sortedTodos this todoList w) = Inr ts \<longrightarrow>
        (\<forall>t \<in> set ts. t_username t = username this \<and> t \<in> set (todos (tables w)))"
  proof (intro allI impI ballI)
    fix ts t
    assume r: "fst (sortedTodos this todoList w) = Inr ts" and t: "t \<in> set ts"
    from r sortedTodos_run [OF sortedTodos_Inr [OF r], of this todoList] t
    show "t_username t = username this \<and> t \<in> set (todos (tables w))"
      by auto
  qed
  have other: "\<forall>that title' l b w'.
        username that \<noteq> username this \<and>
        (createTodoList that title' w = (b, w') \<or> addTodo that title' l w = (b, w')) \<longrightarrow>
        fst (sortedTodoLists this w') = fst (sortedTodoLists this w) \<and>
        fst (loadTodoList this todoListId w') = fst (loadTodoList this todoListId w) \<and>
        fst (loadTodo this todoListId todoId w') = fst (loadTodo this todoListId todoId w) \<and>
        fst (sortedTodos this todoList w') = fst (sortedTodos this todoList w)"
  proof (intro allI impI)
    fix that title' l b w'
    assume h: "username that \<noteq> username this \<and>
        (createTodoList that title' w = (b, w') \<or> addTodo that title' l w = (b, w'))"
    then have "refuses w' = refuses w
      \<and> filter (\<lambda>r. tl_username r = username this) (todolists (tables w')) =
         filter (\<lambda>r. tl_username r = username this) (todolists (tables w))
      \<and> filter (\<lambda>t. t_username t = username this) (todos (tables w')) =
         filter (\<lambda>t. t_username t = username this) (todos (tables w))"
      by (intro created_by_other [of that this title' w b w' l]) simp_all
    then have r: "refuses w' = refuses w"
      and l: "filter (\<lambda>r. tl_username r = username this) (todolists (tables w')) =
         filter (\<lambda>r. tl_username r = username this) (todolists (tables w))"
      and t: "filter (\<lambda>t. t_username t = username this) (todos (tables w')) =
         filter (\<lambda>t. t_username t = username this) (todos (tables w))"
      by simp_all
    from reads_frame [OF r l t]
    show "fst (sortedTodoLists this w') = fst (sortedTodoLists this w) \<and>
        fst (loadTodoList this todoListId w') = fst (loadTodoList this todoListId w) \<and>
        fst (loadTodo this todoListId todoId w') = fst (loadTodo this todoListId todoId w) \<and>
        fst (sortedTodos this todoList w') = fst (sortedTodos this todoList w)"
      by (intro conjI)
  qed
  from all one todo srt other show ?thesis by (intro conjI)
qed

theorem reads_only_own_rows_witness:
  "fst (sortedTodoLists bob example_pg) =
     Inr (Some [\<lparr>tl_id = 2, tl_title = ''Secret'', tl_username = ''bob'',
            tl_todos = [\<lparr>t_id = 3, t_title = ''hide'', t_done = False,
                          t_todolist_id = 2, t_username = ''bob''\<rparr>]\<rparr>])
   \<and> fst (loadTodoList bob 2 example_pg) =
       Inr (Some \<lparr>tl_id = 2, tl_title = ''Secret'', tl_username = ''bob'',
            tl_todos = [\<lparr>t_id = 3, t_title = ''hide'', t_done = False,
                          t_todolist_id = 2, t_username = ''bob''\<rparr>]\<rparr>)
   \<and> fst (loadTodo bob 2 3 example_pg) =
       Inr (Some \<lparr>t_id = 3, t_title = ''hide'', t_done = False,
                   t_todolist_id = 2, t_username = ''bob''\<rparr>)
   \<and> fst (sortedTodos bob
            \<lparr>tl_id = 2, tl_title = ''Secret'', tl_username = ''bob'', tl_todos = []\<rparr>
            example_pg) =
       Inr [\<lparr>t_id = 3, t_title = ''hide'', t_done = False,
              t_todolist_id = 2, t_username = ''bob''\<rparr>]
   \<and> username bob = ''bob''
   \<and> fst (loadTodoList bob 1 example_pg) = Inr None
   \<and> fst (loadTodo bob 3 2 example_pg) = Inr None
   \<and> fst (sortedTodos bob
            \<lparr>tl_id = 3, tl_title = ''home'', tl_username = ''alice'', tl_todos = []\<rparr>
            example_pg) = Inr []
   \<and> fst (createTodoList alice ''Garden'' example_pg) = Inr True
   \<and> fst (sortedTodoLists bob (snd (createTodoList alice ''Garden'' example_pg))) =
       fst (sortedTodoLists bob example_pg)
   \<and> fst (addTodo alice ''peek'' 2 example_pg) = Inr True
   \<and> fst (loadTodoList bob 2 (snd (addTodo alice ''peek'' 2 example_pg))) =
       fst (loadTodoList bob 2 example_pg)"
proof -
  let ?t = "\<lparr>t_id = 3, t_title = ''hide'', t_done = False,
             t_todolist_id = 2, t_username = ''bob''\<rparr>"
  let ?l = "\<lparr>tl_id = 2, tl_title = ''Secret'', tl_username = ''bob'', tl_todos = [?t]\<rparr>"
  let ?bare = "\<lparr>tl_id = 2, tl_title = ''Secret'', tl_username = ''bob'', tl_todos = []\<rparr>"
  have 1: "fst (sortedTodoLists bob example_pg) = Inr (Some [?l])" by code_simp
  have 2: "fst (loadTodoList bob 2 example_pg) = Inr (Some ?l)" by code_simp
  have 3: "fst (loadTodo bob 2 3 example_pg) = Inr (Some ?t)" by code_simp
  have 4: "fst (sortedTodos bob ?bare example_pg) = Inr [?t]" by code_simp
  from reads_only_own_rows [of bob example_pg 2 3 ?bare,
      THEN conjunct2, THEN conjunct2, THEN conjunct1, rule_format, OF 3]
  have 5: "username bob = ''bob''"
    by simp
  have 6: "fst (loadTodoList bob 1 example_pg) = Inr None" by code_simp
  have 7: "fst (loadTodo bob 3 2 example_pg) = Inr None" by code_simp
  have 8: "fst (sortedTodos bob
            \<lparr>tl_id = 3, tl_title = ''home'', tl_username = ''alice'', tl_todos = []\<rparr>
            example_pg) = Inr []" by code_simp
  have ab: "username alice \<noteq> username bob" by (simp add: alice_def bob_def)
  have 9: "fst (createTodoList alice ''Garden'' example_pg) = Inr True" by code_simp
  have c: "createTodoList alice ''Garden'' example_pg =
      (fst (createTodoList alice ''Garden'' example_pg),
       snd (createTodoList alice ''Garden'' example_pg))"
    by simp
  from reads_only_own_rows [of bob example_pg 2 3 ?bare,
      THEN conjunct2, THEN conjunct2, THEN conjunct2, THEN conjunct2, rule_format] ab c
  have 10: "fst (sortedTodoLists bob (snd (createTodoList alice ''Garden'' example_pg))) =
       fst (sortedTodoLists bob example_pg)"
    by blast
  have 11: "fst (addTodo alice ''peek'' 2 example_pg) = Inr True" by code_simp
  have a: "addTodo alice ''peek'' 2 example_pg =
      (fst (addTodo alice ''peek'' 2 example_pg), snd (addTodo alice ''peek'' 2 example_pg))"
    by simp
  from reads_only_own_rows [of bob example_pg 2 3 ?bare,
      THEN conjunct2, THEN conjunct2, THEN conjunct2, THEN conjunct2, rule_format] ab a
  have 12: "fst (loadTodoList bob 2 (snd (addTodo alice ''peek'' 2 example_pg))) =
       fst (loadTodoList bob 2 example_pg)"
    by blast
  from 1 2 3 4 5 6 7 8 9 10 11 12 show ?thesis by blast
qed

text \<open>
  C2. \<open>isDoneTodoList\<close> holds of a todo list exactly when the list has at least one
  todo and every todo of it is done; so it is false of a list with no todos.
\<close>

theorem isDoneTodoList_iff:
  "isDoneTodoList l = (tl_todos l \<noteq> [] \<and> (\<forall>t \<in> set (tl_todos l). t_done t))
   \<and> (tl_todos l = [] \<longrightarrow> \<not> isDoneTodoList l)"
  by (simp add: isDoneTodoList_def list_all_iff)

theorem isDoneTodoList_iff_witness:
  "isDoneTodoList \<lparr>tl_id = 1, tl_title = ''Work'', tl_username = ''alice'',
       tl_todos = [\<lparr>t_id = 1, t_title = ''write'', t_done = True,
                     t_todolist_id = 1, t_username = ''alice''\<rparr>]\<rparr>
   \<and> \<not> isDoneTodoList \<lparr>tl_id = 3, tl_title = ''home'', tl_username = ''alice'',
       tl_todos = [\<lparr>t_id = 2, t_title = ''Plan'', t_done = False,
                     t_todolist_id = 3, t_username = ''alice''\<rparr>,
                   \<lparr>t_id = 4, t_title = ''Clean'', t_done = True,
                     t_todolist_id = 3, t_username = ''alice''\<rparr>]\<rparr>
   \<and> \<not> isDoneTodoList \<lparr>tl_id = 4, tl_title = ''Empty'', tl_username = ''alice'',
       tl_todos = []\<rparr>"
  using
    isDoneTodoList_iff [of "\<lparr>tl_id = 1, tl_title = ''Work'', tl_username = ''alice'',
       tl_todos = [\<lparr>t_id = 1, t_title = ''write'', t_done = True,
                     t_todolist_id = 1, t_username = ''alice''\<rparr>]\<rparr>"]
    isDoneTodoList_iff [of "\<lparr>tl_id = 3, tl_title = ''home'', tl_username = ''alice'',
       tl_todos = [\<lparr>t_id = 2, t_title = ''Plan'', t_done = False,
                     t_todolist_id = 3, t_username = ''alice''\<rparr>,
                   \<lparr>t_id = 4, t_title = ''Clean'', t_done = True,
                     t_todolist_id = 3, t_username = ''alice''\<rparr>]\<rparr>"]
    isDoneTodoList_iff [of "\<lparr>tl_id = 4, tl_title = ''Empty'', tl_username = ''alice'',
       tl_todos = []\<rparr>"]
  by simp

text \<open>
  C3. With the store reachable, \<open>sortedTodoLists\<close> returns the lists of the identity,
  each once: the rows fetched, which are all the rows of the identity in ascending order
  of their lower-cased titles, each with its todos attached, the lists that are not done
  first and the done lists after them. Each of the two groups is in the order in which
  it was fetched, hence in ascending order of the lower-cased titles.
\<close>

theorem sortedTodoLists_partitioned:
  assumes "refuses w = None"
  shows "\<exists>ls fetched todos_fetched attached.
      fst (sortedTodoLists this w) = Inr (Some ls)
    \<and> fst (dbQuery (ALL_TODOLISTS (username this)) w) =
        Inr \<lparr>rows = fetched, rowCount = length fetched\<rparr>
    \<and> fst (dbQuery (ALL_TODOS (username this)) w) =
        Inr \<lparr>rows = todos_fetched, rowCount = length todos_fetched\<rparr>
    \<and> mset fetched =
        mset (filter (\<lambda>r. tl_username r = username this) (todolists (tables w)))
    \<and> sorted (map (\<lambda>r. lower (tl_title r)) fetched)
    \<and> attached =
        map (\<lambda>r. set_todos r (filter (\<lambda>t. tl_id r = t_todolist_id t) todos_fetched)) fetched
    \<and> ls = filter (\<lambda>l. \<not> isDoneTodoList l) attached @ filter isDoneTodoList attached
    \<and> filter (\<lambda>l. \<not> isDoneTodoList l) ls = filter (\<lambda>l. \<not> isDoneTodoList l) attached
    \<and> filter isDoneTodoList ls = filter isDoneTodoList attached
    \<and> mset (map todolists_row.truncate ls) =
        mset (filter (\<lambda>r. tl_username r = username this) (todolists (tables w)))
    \<and> (\<forall>i j. i < j \<and> j < length ls \<and> isDoneTodoList (ls ! i) \<longrightarrow> isDoneTodoList (ls ! j))
    \<and> sorted (map (\<lambda>l. lower (tl_title l)) (filter (\<lambda>l. \<not> isDoneTodoList l) ls))
    \<and> sorted (map (\<lambda>l. lower (tl_title l)) (filter isDoneTodoList ls))"
proof -
  let ?own = "filter (\<lambda>r. tl_username r = username this) (todolists (tables w))"
  let ?fetched = "sort_key (\<lambda>r. lower (tl_title r)) ?own"
  let ?todos = "filter (\<lambda>t. t_username t = username this) (todos (tables w))"
  let ?att = "map (\<lambda>r. set_todos r (filter (\<lambda>t. tl_id r = t_todolist_id t) ?todos)) ?fetched"
  let ?U = "\<lambda>l. \<not> isDoneTodoList l"
  let ?ls = "filter ?U ?att @ filter isDoneTodoList ?att"
  have run: "fst (sortedTodoLists this w) = Inr (Some ?ls)"
    by (simp only: sortedTodoLists_run [OF assms] partitionTodoLists_eq)
  have q0: "fst (dbQuery (ALL_TODOLISTS (username this)) w) =
      Inr \<lparr>rows = ?fetched, rowCount = length ?fetched\<rparr>"
    by (simp add: dbQuery_select_ok [OF ALL_TODOLISTS_exec assms])
  have q1: "fst (dbQuery (ALL_TODOS (username this)) w) =
      Inr \<lparr>rows = ?todos, rowCount = length ?todos\<rparr>"
    by (simp add: dbQuery_select_ok [OF ALL_TODOS_exec assms])
  have perm: "mset ?fetched = mset ?own" by simp
  have srt: "sorted (map (\<lambda>r. lower (tl_title r)) ?fetched)" by (rule sorted_sort_key)
  have titles: "map (\<lambda>l. lower (tl_title l)) ?att = map (\<lambda>r. lower (tl_title r)) ?fetched"
    by (simp add: set_todos_sel comp_def)
  have srt_att: "sorted (map (\<lambda>l. lower (tl_title l)) ?att)"
    unfolding titles by (rule srt)
  have fu: "filter ?U ?ls = filter ?U ?att" by (rule filter_partition(2))
  have fd: "filter isDoneTodoList ?ls = filter isDoneTodoList ?att" by (rule filter_partition(1))
  have rows_back: "map todolists_row.truncate ?att = ?fetched"
    by (simp add: truncate_set_todos comp_def)
  have "mset (map todolists_row.truncate ?ls) = mset (map todolists_row.truncate ?att)"
    by (rule mset_map_partition)
  then have all: "mset (map todolists_row.truncate ?ls) = mset ?own"
    unfolding rows_back by (simp only: perm)
  have len: "length ?ls = length ?att"
    by (rule length_partition)
  have order: "\<forall>i j. i < j \<and> j < length ?ls \<and> isDoneTodoList (?ls ! i) \<longrightarrow>
      isDoneTodoList (?ls ! j)"
  proof (intro allI impI)
    fix i j
    assume h: "i < j \<and> j < length ?ls \<and> isDoneTodoList (?ls ! i)"
    then have "i < j" "j < length ?att" "isDoneTodoList (?ls ! i)"
      unfolding len by blast+
    then show "isDoneTodoList (?ls ! j)"
      by (rule partition_order [where P = isDoneTodoList])
  qed
  have su: "sorted (map (\<lambda>l. lower (tl_title l)) (filter ?U ?ls))"
    unfolding fu using srt_att by (rule sorted_filter)
  have sd: "sorted (map (\<lambda>l. lower (tl_title l)) (filter isDoneTodoList ?ls))"
    unfolding fd using srt_att by (rule sorted_filter)
  show ?thesis
    apply (rule exI [of _ ?ls])
    apply (rule exI [of _ ?fetched])
    apply (rule exI [of _ ?todos])
    apply (rule exI [of _ ?att])
    apply (intro conjI)
    apply (rule run)
    apply (rule q0)
    apply (rule q1)
    apply (rule perm)
    apply (rule srt)
    apply (rule refl)
    apply (rule refl)
    apply (rule fu)
    apply (rule fd)
    apply (rule all)
    apply (rule order)
    apply (rule su)
    apply (rule sd)
    done
qed

theorem sortedTodoLists_partitioned_witness:
  "fst (sortedTodoLists alice example_pg) =
     Inr (Some
         [\<lparr>tl_id = 4, tl_title = ''Empty'', tl_username = ''alice'', tl_todos = []\<rparr>,
          \<lparr>tl_id = 3, tl_title = ''home'', tl_username = ''alice'',
            tl_todos = [\<lparr>t_id = 2, t_title = ''Plan'', t_done = False,
                          t_todolist_id = 3, t_username = ''alice''\<rparr>,
                        \<lparr>t_id = 4, t_title = ''Clean'', t_done = True,
                          t_todolist_id = 3, t_username = ''alice''\<rparr>,
                        \<lparr>t_id = 5, t_title = ''bake'', t_done = False,
                          t_todolist_id = 3, t_username = ''alice''\<rparr>]\<rparr>,
          \<lparr>tl_id = 1, tl_title = ''Work'', tl_username = ''alice'',
            tl_todos = [\<lparr>t_id = 1, t_title = ''write'', t_done = True,
                          t_todolist_id = 1, t_username = ''alice''\<rparr>]\<rparr>])
   \<and> sorted [lower ''Empty'', lower ''home'']
   \<and> sorted [lower ''Work'']"
proof -
  let ?e = "\<lparr>tl_id = 4, tl_title = ''Empty'', tl_username = ''alice'', tl_todos = []\<rparr>"
  let ?h = "\<lparr>tl_id = 3, tl_title = ''home'', tl_username = ''alice'',
            tl_todos = [\<lparr>t_id = 2, t_title = ''Plan'', t_done = False,
                          t_todolist_id = 3, t_username = ''alice''\<rparr>,
                        \<lparr>t_id = 4, t_title = ''Clean'', t_done = True,
                          t_todolist_id = 3, t_username = ''alice''\<rparr>,
                        \<lparr>t_id = 5, t_title = ''bake'', t_done = False,
                          t_todolist_id = 3, t_username = ''alice''\<rparr>]\<rparr>"
  let ?w = "\<lparr>tl_id = 1, tl_title = ''Work'', tl_username = ''alice'',
            tl_todos = [\<lparr>t_id = 1, t_title = ''write'', t_done = True,
                          t_todolist_id = 1, t_username = ''alice''\<rparr>]\<rparr>"
  have ev: "fst (sortedTodoLists alice example_pg) = Inr (Some [?e, ?h, ?w])"
    by code_simp
  have dn: "\<not> isDoneTodoList ?e" "\<not> isDoneTodoList ?h" "isDoneTodoList ?w"
    by (simp_all add: isDoneTodoList_def)
  from sortedTodoLists_partitioned [OF example_pg_accepts, of alice]
  obtain ls where ls: "fst (sortedTodoLists alice example_pg) = Inr (Some ls)"
    and u: "sorted (map (\<lambda>l. lower (tl_title l)) (filter (\<lambda>l. \<not> isDoneTodoList l) ls))"
    and d: "sorted (map (\<lambda>l. lower (tl_title l)) (filter isDoneTodoList ls))"
    by blast
  from ls ev have "ls = [?e, ?h, ?w]" by simp
  with u d dn have "sorted [lower ''Empty'', lower ''home'']" "sorted [lower ''Work'']"
    by simp_all
  with ev show ?thesis by blast
qed

text \<open>
  C4, as the code has it. \<open>createTodoList\<close> returns false, raising nothing and
  leaving the tables alone, when the identity already has a list of that title, and
  also when the id that the sequence gives is taken: each is a violated uniqueness
  constraint. Of any error of the store, a refused connection or a rejected insert, it
  makes false when the error's text contains
  \<^verbatim>\<open>duplicate key value violates unique constraint\<close>, and passes the error on as it
  is when the text does not; so the violated foreign key on the user name is passed on.
  When the insert is accepted it returns true, and the new row is in \<^verbatim>\<open>todolists\<close>.
\<close>

theorem createTodoList_outcomes:
  "(refuses w = None \<and>
    list_ex (\<lambda>r. tl_username r = username this \<and> tl_title r = title')
      (todolists (tables w)) \<longrightarrow>
      fst (createTodoList this title' w) = Inr False \<and>
      tables (snd (createTodoList this title' w)) = tables w)
   \<and> (refuses w = None \<and>
       list_ex (\<lambda>r. tl_id r = todolists_id_seq (tables w)) (todolists (tables w)) \<longrightarrow>
        fst (createTodoList this title' w) = Inr False \<and>
        tables (snd (createTodoList this title' w)) = tables w)
   \<and> (\<forall>e. refuses w = Some e \<or>
            refuses w = None \<and>
            insert_todolist title' (username this) (tables w) = Inl e \<longrightarrow>
        fst (createTodoList this title' w) =
          (if \<exists>a b. String_of e =
                 a @ ''duplicate key value violates unique constraint'' @ b
           then Inr False else Inl e) \<and>
        tables (snd (createTodoList this title' w)) = tables w)
   \<and> (refuses w = None \<and>
       \<not> list_ex (\<lambda>r. tl_id r = todolists_id_seq (tables w)) (todolists (tables w)) \<and>
       \<not> list_ex (\<lambda>r. tl_username r = username this \<and> tl_title r = title')
           (todolists (tables w)) \<and>
       \<not> list_ex (\<lambda>r. u_username r = username this) (users (tables w)) \<longrightarrow>
        fst (createTodoList this title' w) =
          Inl (foreign_key_violation ''todolists'' ''todolists_username_fkey'') \<and>
        tables (snd (createTodoList this title' w)) = tables w)
   \<and> (refuses w = None \<and>
       \<not> list_ex (\<lambda>r. tl_id r = todolists_id_seq (tables w)) (todolists (tables w)) \<and>
       \<not> list_ex (\<lambda>r. tl_username r = username this \<and> tl_title r = title')
           (todolists (tables w)) \<and>
       list_ex (\<lambda>r. u_username r = username this) (users (tables w)) \<longrightarrow>
        fst (createTodoList this title' w) = Inr True)
   \<and> (\<forall>res w'. dbQuery (CREATE_TODOLIST title' (username this)) w = (Inr res, w') \<longrightarrow>
        createTodoList this title' w = (Inr True, w') \<and>
        todolists (tables w') = todolists (tables w) @
          [\<lparr>tl_id = todolists_id_seq (tables w), tl_title = title',
            tl_username = username this\<rparr>])"
proof -
  let ?stmt = "CREATE_TODOLIST title' (username this)"
  let ?pk = "list_ex (\<lambda>r. tl_id r = todolists_id_seq (tables w)) (todolists (tables w))"
  let ?dup = "list_ex (\<lambda>r. tl_username r = username this \<and> tl_title r = title')
      (todolists (tables w))"
  let ?user = "list_ex (\<lambda>r. u_username r = username this) (users (tables w))"
  let ?phrase = "''duplicate key value violates unique constraint''"
  have ex: "exec ?stmt = insert_todolist title' (username this)"
    by (simp add: CREATE_TODOLIST_def)
  have err: "\<forall>e. refuses w = Some e \<or>
            refuses w = None \<and>
            insert_todolist title' (username this) (tables w) = Inl e \<longrightarrow>
        fst (createTodoList this title' w) =
          (if \<exists>a b. String_of e = a @ ?phrase @ b then Inr False else Inl e) \<and>
        tables (snd (createTodoList this title' w)) = tables w"
  proof (intro allI impI)
    fix e
    assume "refuses w = Some e \<or>
        refuses w = None \<and> insert_todolist title' (username this) (tables w) = Inl e"
    then have "\<exists>w'. dbQuery ?stmt w = (Inl e, w')"
    proof
      assume "refuses w = Some e"
      from dbQuery_refused [OF this, of ?stmt] show ?thesis by blast
    next
      assume "refuses w = None \<and>
          insert_todolist title' (username this) (tables w) = Inl e"
      then have "refuses w = None" and "exec ?stmt (tables w) = Inl e"
        by (simp_all add: ex)
      from dbQuery_rejected [OF this] show ?thesis by blast
    qed
    then obtain w' where q: "dbQuery ?stmt w = (Inl e, w')" by blast
    from createTodoList_rejected [OF q]
    show "fst (createTodoList this title' w) =
          (if \<exists>a b. String_of e = a @ ?phrase @ b then Inr False else Inl e) \<and>
        tables (snd (createTodoList this title' w)) = tables w"
      by (rule conjI)
  qed
  have dup: "refuses w = None \<and> ?dup \<longrightarrow>
      fst (createTodoList this title' w) = Inr False \<and>
      tables (snd (createTodoList this title' w)) = tables w"
  proof
    assume h: "refuses w = None \<and> ?dup"
    with insert_todolist_duplicate [of "username this" title' "tables w"]
    obtain c where c: "insert_todolist title' (username this) (tables w) =
        Inl (unique_violation c)"
      by blast
    from unique_violation_classified [of c]
    have "\<exists>a b. String_of (unique_violation c) = a @ ?phrase @ b"
      by (simp only: isUniqueConstraintViolation_iff)
    with err [rule_format, of "unique_violation c"] h c
    show "fst (createTodoList this title' w) = Inr False \<and>
      tables (snd (createTodoList this title' w)) = tables w"
      by simp
  qed
  have pk: "refuses w = None \<and> ?pk \<longrightarrow>
      fst (createTodoList this title' w) = Inr False \<and>
      tables (snd (createTodoList this title' w)) = tables w"
  proof
    assume h: "refuses w = None \<and> ?pk"
    then have c: "insert_todolist title' (username this) (tables w) =
        Inl (unique_violation ''todolists_pkey'')"
      by (simp add: insert_todolist_pkey)
    from unique_violation_classified [of "''todolists_pkey''"]
    have "\<exists>a b. String_of (unique_violation ''todolists_pkey'') = a @ ?phrase @ b"
      by (simp only: isUniqueConstraintViolation_iff)
    with err [rule_format, of "unique_violation ''todolists_pkey''"] h c
    show "fst (createTodoList this title' w) = Inr False \<and>
      tables (snd (createTodoList this title' w)) = tables w"
      by simp
  qed
  have fk: "refuses w = None \<and> \<not> ?pk \<and> \<not> ?dup \<and> \<not> ?user \<longrightarrow>
      fst (createTodoList this title' w) =
        Inl (foreign_key_violation ''todolists'' ''todolists_username_fkey'') \<and>
      tables (snd (createTodoList this title' w)) = tables w"
  proof
    assume h: "refuses w = None \<and> \<not> ?pk \<and> \<not> ?dup \<and> \<not> ?user"
    then have c: "insert_todolist title' (username this) (tables w) =
        Inl (foreign_key_violation ''todolists'' ''todolists_username_fkey'')"
      by (simp add: insert_todolist_fkey)
    have "\<not> (\<exists>a b. String_of (foreign_key_violation ''todolists''
        ''todolists_username_fkey'') = a @ ?phrase @ b)"
      unfolding isUniqueConstraintViolation_iff [symmetric]
      by (rule username_fkey_not_classified)
    with err [rule_format,
        of "foreign_key_violation ''todolists'' ''todolists_username_fkey''"] h c
    show "fst (createTodoList this title' w) =
        Inl (foreign_key_violation ''todolists'' ''todolists_username_fkey'') \<and>
      tables (snd (createTodoList this title' w)) = tables w"
      by simp
  qed
  have ok: "\<forall>res w'. dbQuery ?stmt w = (Inr res, w') \<longrightarrow>
        createTodoList this title' w = (Inr True, w') \<and>
        todolists (tables w') = todolists (tables w) @
          [\<lparr>tl_id = todolists_id_seq (tables w), tl_title = title',
            tl_username = username this\<rparr>]"
  proof (intro allI impI)
    fix res w'
    assume q: "dbQuery ?stmt w = (Inr res, w')"
    from dbQuery_Inr [OF q] ex
    have "insert_todolist title' (username this) (tables w) = Inr (res, tables w')"
      by auto
    from insert_todolist_Inr [OF this]
    show "createTodoList this title' w = (Inr True, w') \<and>
        todolists (tables w') = todolists (tables w) @
          [\<lparr>tl_id = todolists_id_seq (tables w), tl_title = title',
            tl_username = username this\<rparr>]"
      by (simp add: createTodoList_def q)
  qed
  have acc: "refuses w = None \<and> \<not> ?pk \<and> \<not> ?dup \<and> ?user \<longrightarrow>
      fst (createTodoList this title' w) = Inr True"
  proof
    assume h: "refuses w = None \<and> \<not> ?pk \<and> \<not> ?dup \<and> ?user"
    then have r: "refuses w = None" by simp
    from h have "exec ?stmt (tables w) =
        Inr (\<lparr>rows = [], rowCount = 1\<rparr>,
          (tables w)\<lparr>todolists := todolists (tables w) @
                [\<lparr>tl_id = todolists_id_seq (tables w), tl_title = title',
                  tl_username = username this\<rparr>],
            todolists_id_seq := todolists_id_seq (tables w) + 1\<rparr>)"
      unfolding ex by (intro insert_todolist_accepted) simp_all
    from dbQuery_resolved [OF r this]
    show "fst (createTodoList this title' w) = Inr True"
      by (simp add: createTodoList_def)
  qed
  from dup pk err fk acc ok show ?thesis by (intro conjI)
qed

theorem createTodoList_outcomes_witness:
  "fst (createTodoList alice ''Work'' example_pg) = Inr False
   \<and> tables (snd (createTodoList alice ''Work'' example_pg)) = example_db
   \<and> fst (createTodoList alice ''Garden''
            (example_pg\<lparr>tables := example_db\<lparr>todolists_id_seq := 4\<rparr>\<rparr>)) = Inr False
   \<and> fst (createTodoList alice ''Garden''
            (example_pg\<lparr>refuses := Some (Error ''Error'' ''connect ECONNREFUSED'')\<rparr>)) =
       Inl (Error ''Error'' ''connect ECONNREFUSED'')
   \<and> fst (createTodoList \<lparr>username = ''carol''\<rparr> ''Work'' example_pg) =
       Inl (foreign_key_violation ''todolists'' ''todolists_username_fkey'')
   \<and> fst (createTodoList alice ''Garden'' example_pg) = Inr True
   \<and> todolists (tables (snd (createTodoList alice ''Garden'' example_pg))) =
       todolists example_db @ [\<lparr>tl_id = 5, tl_title = ''Garden'', tl_username = ''alice''\<rparr>]"
proof -
  let ?pk = "example_pg\<lparr>tables := example_db\<lparr>todolists_id_seq := 4\<rparr>\<rparr>"
  let ?e = "Error ''Error'' ''connect ECONNREFUSED''"
  let ?down = "example_pg\<lparr>refuses := Some ?e\<rparr>"
  note a = createTodoList_outcomes [of example_pg alice "''Work''"]
  note p = createTodoList_outcomes [of ?pk alice "''Garden''"]
  note d = createTodoList_outcomes [of ?down alice "''Garden''"]
  note c = createTodoList_outcomes [of example_pg "\<lparr>username = ''carol''\<rparr>" "''Work''"]
  note g = createTodoList_outcomes [of example_pg alice "''Garden''"]
  have 1: "fst (createTodoList alice ''Work'' example_pg) = Inr False \<and>
      tables (snd (createTodoList alice ''Work'' example_pg)) = example_db"
    using a [THEN conjunct1] by (simp add: example_pg_def example_db_def alice_def)
  have 2: "fst (createTodoList alice ''Garden'' ?pk) = Inr False"
    using p [THEN conjunct2, THEN conjunct1]
    by (simp add: example_pg_def example_db_def alice_def)
  have "\<not> regex_test ''duplicate key value violates unique constraint'' (String_of ?e)"
    by simp
  then have ne: "\<not> (\<exists>a b. String_of ?e =
      a @ ''duplicate key value violates unique constraint'' @ b)"
    unfolding regex_test_iff .
  have "refuses ?down = Some ?e" by simp
  with d [THEN conjunct2, THEN conjunct2, THEN conjunct1, rule_format, of ?e] ne
  have 3: "fst (createTodoList alice ''Garden'' ?down) = Inl ?e"
    by simp
  have 4: "fst (createTodoList \<lparr>username = ''carol''\<rparr> ''Work'' example_pg) =
       Inl (foreign_key_violation ''todolists'' ''todolists_username_fkey'')"
    using c [THEN conjunct2, THEN conjunct2, THEN conjunct2, THEN conjunct1]
    by (simp add: example_pg_def example_db_def)
  have qg: "dbQuery (CREATE_TODOLIST ''Garden'' (username alice)) example_pg =
      (Inr \<lparr>rows = [], rowCount = 1\<rparr>,
       snd (dbQuery (CREATE_TODOLIST ''Garden'' (username alice)) example_pg))"
    by (simp add: run_defs CREATE_TODOLIST_def insert_todolist_def example_pg_def example_db_def
        alice_def)
  from g [THEN conjunct2, THEN conjunct2, THEN conjunct2, THEN conjunct2, THEN conjunct2,
      rule_format, OF qg]
  have 5: "fst (createTodoList alice ''Garden'' example_pg) = Inr True \<and>
      todolists (tables (snd (createTodoList alice ''Garden'' example_pg))) =
       todolists example_db @ [\<lparr>tl_id = 5, tl_title = ''Garden'', tl_username = ''alice''\<rparr>]"
    by (simp add: example_pg_def example_db_def alice_def)
  from 1 2 3 4 5 show ?thesis by blast
qed

text \<open>
  C4, as it is worded, fails: not every store error other than a duplicate
  \<^verbatim>\<open>(username, title)\<close> pair is passed on. Alice has no list titled Garden, the
  sequence of \<^verbatim>\<open>todolists\<close> stands at an id that is taken, the store rejects the
  insert for the primary key, and \<open>createTodoList\<close> returns false.
\<close>

theorem createTodoList_pkey_counterexample:
  "''Garden'' \<notin> set (map tl_title (todolists example_db))
   \<and> insert_todolist ''Garden'' ''alice'' (example_db\<lparr>todolists_id_seq := 4\<rparr>) =
       Inl (unique_violation ''todolists_pkey'')
   \<and> fst (createTodoList alice ''Garden''
            (example_pg\<lparr>tables := example_db\<lparr>todolists_id_seq := 4\<rparr>\<rparr>)) = Inr False
   \<and> fst (createTodoList alice ''Garden''
            (example_pg\<lparr>tables := example_db\<lparr>todolists_id_seq := 4\<rparr>\<rparr>)) \<noteq>
       Inl (unique_violation ''todolists_pkey'')"
  by (simp add: createTodoList_def run_defs CREATE_TODOLIST_def insert_todolist_def
      isUniqueConstraintViolation_def unique_violation_def example_pg_def example_db_def
      alice_def)


text \<open>
  C5. \<open>dbQuery\<close> ends its client only after a query that succeeded: nothing catches a
  rejected \<^verbatim>\<open>client.query\<close>, so \<^verbatim>\<open>client.end()\<close> is not reached. Alice inserts a
  list under a title she already has: the store's error comes back as it is, and the
  client stays connected, where the client of an accepted insert is ended.
\<close>

theorem dbQuery_rejected_keeps_client:
  "clients example_pg = 0
   \<and> fst (dbQuery (CREATE_TODOLIST ''Work'' ''alice'') example_pg) =
       Inl (unique_violation ''todolists_username_title_key'')
   \<and> clients (snd (dbQuery (CREATE_TODOLIST ''Work'' ''alice'') example_pg)) = 1
   \<and> clients (snd (dbQuery (CREATE_TODOLIST ''Garden'' ''alice'') example_pg)) = 0"
  by (simp add: run_defs CREATE_TODOLIST_def insert_todolist_def example_pg_def example_db_def)







text \<open>
  C8. With the store reachable, \<open>sortedTodos\<close> returns the todos of the given list that
  belong to the identity, each as often as the table has it; no done todo comes before
  one that is not done; and the todos that are not done, and those that are, are each in
  ascending order of their lower-cased titles.
\<close>

theorem sortedTodos_ordered:
  assumes "refuses w = None"
  shows "\<exists>ts. fst (sortedTodos this todoList w) = Inr ts
     \<and> mset ts =
         mset (filter (\<lambda>t. t_todolist_id t = tl_id todoList \<and> t_username t = username this)
                 (todos (tables w)))
     \<and> (\<forall>i j. i < j \<and> j < length ts \<and> t_done (ts ! i) \<longrightarrow> t_done (ts ! j))
     \<and> sorted (map (\<lambda>t. lower (t_title t)) (filter (\<lambda>t. \<not> t_done t) ts))
     \<and> sorted (map (\<lambda>t. lower (t_title t)) (filter t_done ts))"
proof -
  let ?k = "\<lambda>t. (t_done t, lower (t_title t))"
  let ?xs = "filter (\<lambda>t. t_todolist_id t = tl_id todoList \<and> t_username t = username this)
               (todos (tables w))"
  let ?ts = "sort_key ?k ?xs"
  have run: "fst (sortedTodos this todoList w) = Inr ?ts"
    by (rule sortedTodos_run [OF assms])
  have perm: "mset ?ts = mset ?xs" by simp
  have srt: "sorted (map ?k ?ts)" by (rule sorted_sort_key)
  have order: "\<forall>i j. i < j \<and> j < length ?ts \<and> t_done (?ts ! i) \<longrightarrow> t_done (?ts ! j)"
  proof (intro allI impI)
    fix i j
    assume h: "i < j \<and> j < length ?ts \<and> t_done (?ts ! i)"
    then have "t_done (?ts ! i) \<le> t_done (?ts ! j)"
      by (intro sorted_pair_fst [OF srt]) simp_all
    with h show "t_done (?ts ! j)" by simp
  qed
  have grp_undone: "sorted (map (\<lambda>t. lower (t_title t)) (filter (\<lambda>t. \<not> t_done t) ?ts))"
  proof (rule sorted_pair_snd [where f = t_done and c = False])
    show "sorted (map ?k (filter (\<lambda>t. \<not> t_done t) ?ts))"
      using srt by (rule sorted_filter)
  qed simp
  have grp_done: "sorted (map (\<lambda>t. lower (t_title t)) (filter t_done ?ts))"
  proof (rule sorted_pair_snd [where f = t_done and c = True])
    show "sorted (map ?k (filter t_done ?ts))"
      using srt by (rule sorted_filter)
  qed simp
  from run perm order grp_undone grp_done show ?thesis by blast
qed

theorem sortedTodos_ordered_witness:
  "fst (sortedTodos alice
          \<lparr>tl_id = 3, tl_title = ''home'', tl_username = ''alice'', tl_todos = []\<rparr> example_pg) =
     Inr [\<lparr>t_id = 5, t_title = ''bake'', t_done = False, t_todolist_id = 3,
            t_username = ''alice''\<rparr>,
          \<lparr>t_id = 2, t_title = ''Plan'', t_done = False, t_todolist_id = 3,
            t_username = ''alice''\<rparr>,
          \<lparr>t_id = 4, t_title = ''Clean'', t_done = True, t_todolist_id = 3,
            t_username = ''alice''\<rparr>]
   \<and> sorted [lower ''bake'', lower ''Plan'']
   \<and> sorted [lower ''Clean'']"
proof -
  let ?l = "\<lparr>tl_id = 3, tl_title = ''home'', tl_username = ''alice'', tl_todos = []\<rparr>"
  let ?rs = "[\<lparr>t_id = 5, t_title = ''bake'', t_done = False, t_todolist_id = 3,
            t_username = ''alice''\<rparr>,
          \<lparr>t_id = 2, t_title = ''Plan'', t_done = False, t_todolist_id = 3,
            t_username = ''alice''\<rparr>,
          \<lparr>t_id = 4, t_title = ''Clean'', t_done = True, t_todolist_id = 3,
            t_username = ''alice''\<rparr>]"
  have ev: "fst (sortedTodos alice ?l example_pg) = Inr ?rs"
    by code_simp
  from sortedTodos_ordered [OF example_pg_accepts, of alice ?l]
  obtain ts where ts: "fst (sortedTodos alice ?l example_pg) = Inr ts"
    and u: "sorted (map (\<lambda>t. lower (t_title t)) (filter (\<lambda>t. \<not> t_done t) ts))"
    and d: "sorted (map (\<lambda>t. lower (t_title t)) (filter t_done ts))"
    by blast
  from ts ev have "ts = ?rs" by simp
  with u d have "sorted [lower ''bake'', lower ''Plan'']" "sorted [lower ''Clean'']"
    by simp_all
  with ev show ?thesis by blast
qed

text \<open>
  C9. \<open>authenticated\<close> does not depend on the identity the service was built with. With
  the store reachable it returns false when \<^verbatim>\<open>users\<close> has no row for the user name
  given, and otherwise what \<open>bcrypt_compare\<close> makes of the password given and the
  password stored in the first such row. When the connection is refused, the error of
  the refusal is the outcome.
\<close>

theorem authenticated_result:
  "authenticated bcrypt_compare this user pass w =
     authenticated bcrypt_compare this' user pass w
   \<and> (refuses w = None \<longrightarrow>
        fst (authenticated bcrypt_compare this user pass w) =
          (case filter (\<lambda>r. u_username r = user) (users (tables w)) of
             [] \<Rightarrow> Inr False
           | r # _ \<Rightarrow> Inr (bcrypt_compare pass (u_password r))))
   \<and> (\<forall>e. refuses w = Some e \<longrightarrow>
        fst (authenticated bcrypt_compare this user pass w) = Inl e)"
proof -
  obtain r w' where q: "dbQuery (FIND_PASSWORD user) w = (r, w')"
    by (cases "dbQuery (FIND_PASSWORD user) w")
  note sel = dbQuery_select [OF FIND_PASSWORD_exec q]
  have same: "authenticated bcrypt_compare this user pass w =
      authenticated bcrypt_compare this' user pass w"
    by (simp add: authenticated_def)
  have ok: "refuses w = None \<longrightarrow>
        fst (authenticated bcrypt_compare this user pass w) =
          (case filter (\<lambda>r. u_username r = user) (users (tables w)) of
             [] \<Rightarrow> Inr False
           | r # _ \<Rightarrow> Inr (bcrypt_compare pass (u_password r)))"
    using sel by (cases r) (auto simp: authenticated_def q split: list.splits)
  have bad: "\<forall>e. refuses w = Some e \<longrightarrow>
        fst (authenticated bcrypt_compare this user pass w) = Inl e"
    using sel by (cases r) (auto simp: authenticated_def q)
  from same ok bad show ?thesis by blast
qed

theorem authenticated_result_witness:
  "authenticated (\<lambda>p h. h = ''hash-'' @ p) bob ''alice'' ''a'' example_pg =
     authenticated (\<lambda>p h. h = ''hash-'' @ p) alice ''alice'' ''a'' example_pg
   \<and> fst (authenticated (\<lambda>p h. h = ''hash-'' @ p) bob ''alice'' ''a'' example_pg) = Inr True
   \<and> fst (authenticated (\<lambda>p h. h = ''hash-'' @ p) bob ''alice'' ''b'' example_pg) = Inr False
   \<and> fst (authenticated (\<lambda>p h. h = ''hash-'' @ p) bob ''carol'' ''a'' example_pg) = Inr False
   \<and> fst (authenticated (\<lambda>p h. h = ''hash-'' @ p) bob ''alice'' ''a''
            (example_pg\<lparr>refuses := Some (Error ''Error'' ''connect ECONNREFUSED'')\<rparr>)) =
       Inl (Error ''Error'' ''connect ECONNREFUSED'')"
proof -
  let ?cmp = "\<lambda>p h. h = ''hash-'' @ p"
  let ?down = "example_pg\<lparr>refuses := Some (Error ''Error'' ''connect ECONNREFUSED'')\<rparr>"
  note a = authenticated_result [of ?cmp bob "''alice''" "''a''" example_pg alice]
  note b = authenticated_result [of ?cmp bob "''alice''" "''b''" example_pg alice]
  note c = authenticated_result [of ?cmp bob "''carol''" "''a''" example_pg alice]
  note d = authenticated_result [of ?cmp bob "''alice''" "''a''" ?down alice]
  have 1: "authenticated ?cmp bob ''alice'' ''a'' example_pg =
      authenticated ?cmp alice ''alice'' ''a'' example_pg"
    using a by (rule conjunct1)
  have 2: "fst (authenticated ?cmp bob ''alice'' ''a'' example_pg) = Inr True"
    using a [THEN conjunct2, THEN conjunct1] by (simp add: example_pg_def example_db_def)
  have 3: "fst (authenticated ?cmp bob ''alice'' ''b'' example_pg) = Inr False"
    using b [THEN conjunct2, THEN conjunct1] by (simp add: example_pg_def example_db_def)
  have 4: "fst (authenticated ?cmp bob ''carol'' ''a'' example_pg) = Inr False"
    using c [THEN conjunct2, THEN conjunct1] by (simp add: example_pg_def example_db_def)
  have 5: "fst (authenticated ?cmp bob ''alice'' ''a'' ?down) =
      Inl (Error ''Error'' ''connect ECONNREFUSED'')"
    using d [THEN conjunct2, THEN conjunct2] by simp
  from 1 2 3 4 5 show ?thesis by blast
qed

text \<open>
  C10. \<open>addTodo\<close> only inserts. Whenever it returns a boolean, the boolean is true and
  the table \<^verbatim>\<open>todos\<close> has one more row, with the given title, the given list id and the
  user name of the identity; whenever it raises, the tables are as before. The insert is
  accepted as soon as the store is reachable, a list with that id exists, the user exists
  and the sequence's next id is free: nothing asks that the list belong to the identity.
\<close>

theorem addTodo_bare_insert:
  "(\<forall>b w'. addTodo this todoTitle todoListId w = (Inr b, w') \<longrightarrow>
       b = True \<and>
       todos (tables w') = todos (tables w) @
         [\<lparr>t_id = todos_id_seq (tables w), t_title = todoTitle, t_done = False,
           t_todolist_id = todoListId, t_username = username this\<rparr>])
   \<and> (\<forall>e w'. addTodo this todoTitle todoListId w = (Inl e, w') \<longrightarrow> tables w' = tables w)
   \<and> (refuses w = None \<and>
       list_ex (\<lambda>r. tl_id r = todoListId) (todolists (tables w)) \<and>
       list_ex (\<lambda>r. u_username r = username this) (users (tables w)) \<and>
       \<not> list_ex (\<lambda>r. t_id r = todos_id_seq (tables w)) (todos (tables w)) \<longrightarrow>
       fst (addTodo this todoTitle todoListId w) = Inr True)"
proof -
  let ?stmt = "ADD_TITLE todoTitle todoListId (username this)"
  have ex: "exec ?stmt = insert_todo todoTitle todoListId (username this)"
    by (simp add: ADD_TITLE_def)
  have ok: "\<forall>b w'. addTodo this todoTitle todoListId w = (Inr b, w') \<longrightarrow>
       b = True \<and>
       todos (tables w') = todos (tables w) @
         [\<lparr>t_id = todos_id_seq (tables w), t_title = todoTitle, t_done = False,
           t_todolist_id = todoListId, t_username = username this\<rparr>]"
  proof (intro allI impI)
    fix b w'
    assume a: "addTodo this todoTitle todoListId w = (Inr b, w')"
    then obtain res where q: "dbQuery ?stmt w = (Inr res, w')" and b: "b = (rowCount res > 0)"
      by (auto simp: addTodo_def split: prod.splits sum.splits)
    from dbQuery_Inr [OF q] ex
    have "insert_todo todoTitle todoListId (username this) (tables w) = Inr (res, tables w')"
      by auto
    from insert_todo_Inr [OF this] b
    show "b = True \<and>
       todos (tables w') = todos (tables w) @
         [\<lparr>t_id = todos_id_seq (tables w), t_title = todoTitle, t_done = False,
           t_todolist_id = todoListId, t_username = username this\<rparr>]"
      by simp
  qed
  have bad: "\<forall>e w'. addTodo this todoTitle todoListId w = (Inl e, w') \<longrightarrow> tables w' = tables w"
  proof (intro allI impI)
    fix e w'
    assume a: "addTodo this todoTitle todoListId w = (Inl e, w')"
    then have "dbQuery ?stmt w = (Inl e, w')"
      by (auto simp: addTodo_def split: prod.splits sum.splits)
    from dbQuery_Inl [OF this] show "tables w' = tables w" by simp
  qed
  have acc: "refuses w = None \<and>
       list_ex (\<lambda>r. tl_id r = todoListId) (todolists (tables w)) \<and>
       list_ex (\<lambda>r. u_username r = username this) (users (tables w)) \<and>
       \<not> list_ex (\<lambda>r. t_id r = todos_id_seq (tables w)) (todos (tables w)) \<longrightarrow>
       fst (addTodo this todoTitle todoListId w) = Inr True"
  proof
    assume h: "refuses w = None \<and>
       list_ex (\<lambda>r. tl_id r = todoListId) (todolists (tables w)) \<and>
       list_ex (\<lambda>r. u_username r = username this) (users (tables w)) \<and>
       \<not> list_ex (\<lambda>r. t_id r = todos_id_seq (tables w)) (todos (tables w))"
    then have r: "refuses w = None" by simp
    from h have e: "exec ?stmt (tables w) =
      Inr (\<lparr>rows = [], rowCount = 1\<rparr>,
          (tables w)\<lparr>todos := todos (tables w) @
              [\<lparr>t_id = todos_id_seq (tables w), t_title = todoTitle, t_done = False,
                t_todolist_id = todoListId, t_username = username this\<rparr>],
            todos_id_seq := todos_id_seq (tables w) + 1\<rparr>)"
      unfolding ex by (intro insert_todo_accepted) simp_all
    show "fst (addTodo this todoTitle todoListId w) = Inr True"
      unfolding addTodo_def dbQuery_resolved [OF r e] by simp
  qed
  from ok bad acc show ?thesis by (intro conjI)
qed

theorem addTodo_bare_insert_witness:
  "fst (addTodo bob ''intrude'' 1 example_pg) = Inr True
   \<and> tl_username (todolists example_db ! 0) = ''alice''
   \<and> tl_id (todolists example_db ! 0) = 1
   \<and> todos (tables (snd (addTodo bob ''intrude'' 1 example_pg))) =
       todos example_db @
         [\<lparr>t_id = 6, t_title = ''intrude'', t_done = False, t_todolist_id = 1,
           t_username = ''bob''\<rparr>]
   \<and> fst (addTodo bob ''lost'' 99 example_pg) =
       Inl (foreign_key_violation ''todos'' ''todos_todolist_id_fkey'')
   \<and> tables (snd (addTodo bob ''lost'' 99 example_pg)) = example_db"
proof -
  note a = addTodo_bare_insert [of bob "''intrude''" 1 example_pg]
  note b = addTodo_bare_insert [of bob "''lost''" 99 example_pg]
  have 1: "fst (addTodo bob ''intrude'' 1 example_pg) = Inr True"
    using a [THEN conjunct2, THEN conjunct2]
    by (simp add: example_pg_def example_db_def bob_def)
  then have "addTodo bob ''intrude'' 1 example_pg =
      (Inr True, snd (addTodo bob ''intrude'' 1 example_pg))"
    by (metis prod.collapse)
  with a [THEN conjunct1]
  have 2: "todos (tables (snd (addTodo bob ''intrude'' 1 example_pg))) =
       todos example_db @
         [\<lparr>t_id = 6, t_title = ''intrude'', t_done = False, t_todolist_id = 1,
           t_username = ''bob''\<rparr>]"
    by (simp add: example_pg_def example_db_def bob_def)
  have 3: "fst (addTodo bob ''lost'' 99 example_pg) =
       Inl (foreign_key_violation ''todos'' ''todos_todolist_id_fkey'')"
    by (simp add: addTodo_def dbQuery_def client_connect_def logQuery_def client_query_def
        ADD_TITLE_def insert_todo_def example_pg_def example_db_def bob_def)
  then have "addTodo bob ''lost'' 99 example_pg =
      (Inl (foreign_key_violation ''todos'' ''todos_todolist_id_fkey''),
       snd (addTodo bob ''lost'' 99 example_pg))"
    by (metis prod.collapse)
  with b [THEN conjunct2, THEN conjunct1]
  have 4: "tables (snd (addTodo bob ''lost'' 99 example_pg)) = example_db"
    by (simp add: example_pg_def)
  have 5: "tl_username (todolists example_db ! 0) = ''alice'' \<and>
      tl_id (todolists example_db ! 0) = 1"
    by (simp add: example_db_def)
  from 1 2 3 4 5 show ?thesis by blast
qed

end
